theory Spec2Isabelle
  imports Main "HOL-Library.AList" "HOL-Library.Char_ord" "HOL-Library.List_Lexorder"
begin

section \<open>The environment of \<^verbatim>\<open>main.go\<close>: paths, the file system, the serializer\<close>

text \<open>
  The program is a small record store: \<^verbatim>\<open>Driver.Write\<close>, \<^verbatim>\<open>Driver.Read\<close>,
  \<^verbatim>\<open>Driver.ReadAll\<close> and \<^verbatim>\<open>Driver.Delete\<close> compute path strings with
  \<^verbatim>\<open>filepath.Join\<close> and call the \<^verbatim>\<open>os\<close> package on them. The functions of
  \<^verbatim>\<open>main.go\<close> are embedded one to one in the second section. This section models what
  they call, following the Go standard library on Unix:
  path strings are Go strings, the file system is a finite table from absolute locations
  (lists of names) to nodes, and every \<^verbatim>\<open>os\<close> call returns its error as a value and
  records itself in a log of system calls. The file system has no links, permissions or
  quotas of its own: a call fails for a structural reason (a missing name, a file where a
  directory is needed, a directory where a file is needed, an invalid argument), and a
  call that only reads can also be made to fail from outside (permission denied, no
  descriptor left, an I/O error).
\<close>

subsection \<open>Strings and paths\<close>

type_synonym path = string
type_synonym bytes = string

definition newline :: char where
  "newline = CHR 0x0A"

text \<open>\<^verbatim>\<open>strings.Split(p, "/")\<close>.\<close>

fun split_sep :: "string \<Rightarrow> string list" where
  "split_sep [] = [[]]"
| "split_sep (x # xs) =
     (if x = CHR ''/'' then [] # split_sep xs
      else (case split_sep xs of [] \<Rightarrow> [[x]] | w # ws \<Rightarrow> (x # w) # ws))"

text \<open>\<^verbatim>\<open>strings.Join(elems, sep)\<close>.\<close>

fun strings_Join :: "string list \<Rightarrow> string \<Rightarrow> string" where
  "strings_Join [] sep = []"
| "strings_Join [e] sep = e"
| "strings_Join (e # es) sep = e @ sep @ strings_Join es sep"

definition rooted :: "path \<Rightarrow> bool" where
  "rooted p = (p \<noteq> [] \<and> hd p = CHR ''/'')"

text \<open>
  \<^verbatim>\<open>filepath.Clean\<close> reads the path element by element: an empty element and a
  \<^verbatim>\<open>.\<close> element are skipped, a \<^verbatim>\<open>..\<close> element removes the element before it when
  that is a name, is dropped at the root of a rooted path and is kept otherwise; the
  result is \<^verbatim>\<open>.\<close> when nothing is left.
\<close>

definition elems :: "path \<Rightarrow> string list" where
  "elems p = filter (\<lambda>c. c \<noteq> [] \<and> c \<noteq> ''.'') (split_sep p)"

fun clean_elems :: "bool \<Rightarrow> string list \<Rightarrow> string list \<Rightarrow> string list" where
  "clean_elems r out [] = out"
| "clean_elems r out (c # cs) =
     (if c = ''..'' then
        (if out \<noteq> [] \<and> last out \<noteq> ''..'' then clean_elems r (butlast out) cs
         else if r then clean_elems r out cs
         else clean_elems r (out @ [''..'']) cs)
      else clean_elems r (out @ [c]) cs)"

definition render :: "bool \<Rightarrow> string list \<Rightarrow> path" where
  "render r cs =
     (let out = (if r then ''/'' else []) @ strings_Join cs ''/''
      in if out = [] then ''.'' else out)"

text \<open>
  A name of a directory entry: not empty, without a separator, and neither \<^verbatim>\<open>.\<close> nor
  \<^verbatim>\<open>..\<close>.
\<close>

definition valid_name :: "string \<Rightarrow> bool" where
  "valid_name x = (x \<noteq> [] \<and> CHR ''/'' \<notin> set x \<and> x \<noteq> ''.'' \<and> x \<noteq> ''..'')"

text \<open>An element that \<^verbatim>\<open>filepath.Clean\<close> keeps: a name or \<^verbatim>\<open>..\<close>.\<close>

definition kept_elem :: "string \<Rightarrow> bool" where
  "kept_elem x = (x \<noteq> [] \<and> CHR ''/'' \<notin> set x \<and> x \<noteq> ''.'')"

definition filepath_Clean :: "path \<Rightarrow> path" where
  "filepath_Clean p = render (rooted p) (clean_elems (rooted p) [] (elems p))"

text \<open>
  \<^verbatim>\<open>filepath.Join\<close>: the elements from the first non-empty one on, joined with
  \<^verbatim>\<open>/\<close> and cleaned; the empty string when every element is empty.
\<close>

fun filepath_Join :: "string list \<Rightarrow> path" where
  "filepath_Join [] = []"
| "filepath_Join (e # es) =
     (if e = [] then filepath_Join es else filepath_Clean (strings_Join (e # es) ''/''))"

subsection \<open>The file system\<close>

datatype node = File bytes | Dir

datatype file_mode = ModeDir | ModeRegular

text \<open>
  The errors of the program: \<^verbatim>\<open>fmt.Errorf\<close> with its message; an \<^verbatim>\<open>os\<close> error
  for which \<^verbatim>\<open>os.IsNotExist\<close> holds (\<^verbatim>\<open>ENOENT\<close>); any other \<^verbatim>\<open>os\<close> error
  (\<^verbatim>\<open>ENOTDIR\<close>, \<^verbatim>\<open>EISDIR\<close>, \<^verbatim>\<open>EEXIST\<close>, \<^verbatim>\<open>EINVAL\<close>, ...); the errors of
  \<^verbatim>\<open>json.MarshalIndent\<close> and of \<^verbatim>\<open>json.Unmarshal\<close>.
\<close>

datatype error = ErrorString string | NotExist | IOError | EncodeError | DecodeError

definition os_IsNotExist :: "error \<Rightarrow> bool" where
  "os_IsNotExist e = (e = NotExist)"

datatype syscall =
    SysStat path
  | SysMkdirAll path
  | SysWriteFile path bytes
  | SysRename path path
  | SysReadFile path
  | SysReadDir path
  | SysRemoveAll path

type_synonym loc = "string list"
type_synonym fstree = "(loc \<times> node) list"

text \<open>
  The state outside the \<^verbatim>\<open>Driver\<close>: the nodes of the file system by absolute location,
  the working directory of the process, the system calls made so far, the reading calls
  (\<^verbatim>\<open>Stat\<close>, \<^verbatim>\<open>ReadFile\<close>, \<^verbatim>\<open>ReadDir\<close>) that the environment makes fail, and
  the number of mutex objects allocated so far (a mutex is identified by its allocation
  number).
\<close>

record world =
  tree :: fstree
  cwd :: loc
  syslog :: "syscall list"
  faults :: "syscall list"
  heap_mutexes :: nat

definition node_at :: "world \<Rightarrow> loc \<Rightarrow> node option" where
  "node_at w l = map_of (tree w) l"

definition beneath :: "loc \<Rightarrow> loc \<Rightarrow> bool" where
  "beneath l q = (take (length l) q = l)"

text \<open>
  Path resolution as the kernel does it: the path's non-empty elements are walked from
  the root (a rooted path) or from the working directory, \<^verbatim>\<open>.\<close> stays, \<^verbatim>\<open>..\<close>
  goes to the parent, and every location a step leaves must be a directory. The walk
  returns the location the path names, which may itself not exist. The empty path names
  nothing.
\<close>

definition pcomps :: "path \<Rightarrow> string list" where
  "pcomps p = filter (\<lambda>c. c \<noteq> []) (split_sep p)"

definition step :: "loc \<Rightarrow> string \<Rightarrow> loc" where
  "step cur c = (if c = ''.'' then cur else if c = ''..'' then butlast cur else cur @ [c])"

fun namei :: "fstree \<Rightarrow> loc \<Rightarrow> string list \<Rightarrow> error + loc" where
  "namei t cur [] = Inr cur"
| "namei t cur (c # cs) =
     (case map_of t cur of
        None \<Rightarrow> Inl NotExist
      | Some (File b) \<Rightarrow> Inl IOError
      | Some Dir \<Rightarrow> namei t (step cur c) cs)"

definition start :: "world \<Rightarrow> path \<Rightarrow> loc" where
  "start w p = (if rooted p then [] else cwd w)"

definition lookup_path :: "world \<Rightarrow> path \<Rightarrow> error + loc" where
  "lookup_path w p = (if p = [] then Inl NotExist else namei (tree w) (start w p) (pcomps p))"

text \<open>The location a path names, whether or not the walk to it succeeds.\<close>

definition resolve :: "world \<Rightarrow> path \<Rightarrow> loc" where
  "resolve w p = foldl step (start w p) (pcomps p)"

text \<open>The last element of the path is a name: the path names an entry of a directory.\<close>

definition names_entry :: "path \<Rightarrow> bool" where
  "names_entry p = (pcomps p \<noteq> [] \<and> valid_name (last (pcomps p)))"

text \<open>Every name in the file system is the name of a directory entry.\<close>

definition wf_names :: "world \<Rightarrow> bool" where
  "wf_names w = list_all (\<lambda>(q, n). list_all valid_name q) (tree w)"

definition is_file :: "world \<Rightarrow> loc \<Rightarrow> bool" where
  "is_file w l = (case node_at w l of Some (File b) \<Rightarrow> True | _ \<Rightarrow> False)"

definition file_bytes :: "world \<Rightarrow> loc \<Rightarrow> bytes" where
  "file_bytes w l = (case node_at w l of Some (File b) \<Rightarrow> b | _ \<Rightarrow> [])"

text \<open>What the calls compute, before logging.\<close>

definition k_stat :: "world \<Rightarrow> path \<Rightarrow> error + file_mode" where
  "k_stat w p =
     (case lookup_path w p of
        Inl e \<Rightarrow> Inl e
      | Inr l \<Rightarrow>
         (case node_at w l of
            None \<Rightarrow> Inl NotExist
          | Some Dir \<Rightarrow> Inr ModeDir
          | Some (File b) \<Rightarrow> Inr ModeRegular))"

definition k_readfile :: "world \<Rightarrow> path \<Rightarrow> error + bytes" where
  "k_readfile w p =
     (case lookup_path w p of
        Inl e \<Rightarrow> Inl e
      | Inr l \<Rightarrow>
         (case node_at w l of
            None \<Rightarrow> Inl NotExist
          | Some Dir \<Rightarrow> Inl IOError
          | Some (File b) \<Rightarrow> Inr b))"

text \<open>\<^verbatim>\<open>os.ReadDir\<close> returns the entries of a directory sorted by file name.\<close>

definition entries :: "fstree \<Rightarrow> loc \<Rightarrow> string list" where
  "entries t l = sort (remdups (map (last \<circ> fst) (filter (\<lambda>(q, n). q \<noteq> [] \<and> butlast q = l) t)))"

definition k_readdir :: "world \<Rightarrow> path \<Rightarrow> error + string list" where
  "k_readdir w p =
     (case lookup_path w p of
        Inl e \<Rightarrow> Inl e
      | Inr l \<Rightarrow>
         (case node_at w l of
            None \<Rightarrow> Inl NotExist
          | Some (File b) \<Rightarrow> Inl IOError
          | Some Dir \<Rightarrow> Inr (entries (tree w) l)))"

text \<open>
  \<^verbatim>\<open>os.MkdirAll\<close> creates the directory and every missing parent, and does nothing
  when the directory exists; it fails when a name on the way is a file. The walk starts
  at an existing directory and makes each missing name below it.
\<close>

fun mkdirs :: "fstree \<Rightarrow> loc \<Rightarrow> string list \<Rightarrow> error + fstree" where
  "mkdirs t cur [] = Inr t"
| "mkdirs t cur (c # cs) =
     (case map_of t (step cur c) of
        Some Dir \<Rightarrow> mkdirs t (step cur c) cs
      | Some (File b) \<Rightarrow> Inl IOError
      | None \<Rightarrow>
         (if c = ''.'' \<or> c = ''..'' then Inl NotExist
          else mkdirs (AList.update (step cur c) Dir t) (step cur c) cs))"

definition k_mkdirall :: "world \<Rightarrow> path \<Rightarrow> error + fstree" where
  "k_mkdirall w p =
     (if p = [] then Inl NotExist
      else (case map_of (tree w) (start w p) of
              None \<Rightarrow> Inl NotExist
            | Some (File b) \<Rightarrow> Inl IOError
            | Some Dir \<Rightarrow> mkdirs (tree w) (start w p) (pcomps p)))"

text \<open>
  \<^verbatim>\<open>os.WriteFile\<close> opens with \<^verbatim>\<open>O_WRONLY|O_CREATE|O_TRUNC\<close>: the file is created
  or replaced in an existing directory; a directory cannot be opened for writing.
\<close>

definition k_writefile :: "world \<Rightarrow> path \<Rightarrow> bytes \<Rightarrow> error + fstree" where
  "k_writefile w p b =
     (case lookup_path w p of
        Inl e \<Rightarrow> Inl e
      | Inr l \<Rightarrow>
         (case node_at w l of
            Some Dir \<Rightarrow> Inl IOError
          | _ \<Rightarrow> Inr (AList.update l (File b) (tree w))))"

text \<open>
  \<^verbatim>\<open>os.Rename\<close>: the old name must exist; Go refuses a new name that is a directory;
  a file replaces the file at the new name; a directory moves with everything below it,
  to a new name that does not exist and is not below it. Renaming a name to itself
  does nothing.
\<close>

definition move_tree :: "loc \<Rightarrow> loc \<Rightarrow> fstree \<Rightarrow> fstree" where
  "move_tree src dst t =
     map (\<lambda>(q, n). if beneath src q then (dst @ drop (length src) q, n) else (q, n)) t"

definition k_rename :: "world \<Rightarrow> path \<Rightarrow> path \<Rightarrow> error + fstree" where
  "k_rename w old new =
     (case lookup_path w old of
        Inl e \<Rightarrow> Inl e
      | Inr src \<Rightarrow>
         (case lookup_path w new of
            Inl e \<Rightarrow> Inl e
          | Inr dst \<Rightarrow>
             (case node_at w src of
                None \<Rightarrow> Inl NotExist
              | Some (File b) \<Rightarrow>
                 (if src = dst then Inr (tree w)
                  else if node_at w dst = Some Dir then Inl IOError
                  else Inr (AList.update dst (File b) (AList.delete src (tree w))))
              | Some Dir \<Rightarrow>
                 (if src = dst then Inr (tree w)
                  else if node_at w dst \<noteq> None \<or> beneath src dst then Inl IOError
                  else Inr (move_tree src dst (tree w))))))"

text \<open>
  \<^verbatim>\<open>os.RemoveAll\<close> removes the path and everything below it and returns
  \<^verbatim>\<open>nil\<close> when the path does not exist or is empty. It refuses a path that ends in
  \<^verbatim>\<open>.\<close> (\<^verbatim>\<open>EINVAL\<close>: \<^verbatim>\<open>rmdir\<close> does not permit removing \<^verbatim>\<open>.\<close>). The root of the
  file system and a path whose last element is \<^verbatim>\<open>..\<close> are emptied, but the directory
  itself cannot be removed and the call reports that error.
\<close>

definition endsWithDot :: "path \<Rightarrow> bool" where
  "endsWithDot p =
     (p = ''.'' \<or> (2 \<le> length p \<and> last p = CHR ''.'' \<and> p ! (length p - 2) = CHR ''/''))"

definition k_removeall :: "world \<Rightarrow> path \<Rightarrow> error option \<times> fstree" where
  "k_removeall w p =
     (if p = [] then (None, tree w)
      else if endsWithDot p then (Some IOError, tree w)
      else (case lookup_path w p of
              Inl e \<Rightarrow> (if os_IsNotExist e then (None, tree w) else (Some e, tree w))
            | Inr l \<Rightarrow>
               (if l = [] \<or> last (pcomps p) = ''..''
                then (Some IOError, filter (\<lambda>(q, n). \<not> (beneath l q \<and> q \<noteq> l)) (tree w))
                else (None, filter (\<lambda>(q, n). \<not> beneath l q) (tree w)))))"

text \<open>
  The calls of the \<^verbatim>\<open>os\<close> package: each one appends itself to the log. A reading
  call that the environment makes fail returns an error other than not-exist.
\<close>

definition logged :: "syscall \<Rightarrow> world \<Rightarrow> world" where
  "logged c w = w\<lparr>syslog := syslog w @ [c]\<rparr>"

definition failing :: "world \<Rightarrow> syscall \<Rightarrow> bool" where
  "failing w c = (c \<in> set (faults w))"

definition os_Stat :: "path \<Rightarrow> world \<Rightarrow> (error + file_mode) \<times> world" where
  "os_Stat p w =
     ((if failing w (SysStat p) then Inl IOError else k_stat w p), logged (SysStat p) w)"

definition os_ReadFile :: "path \<Rightarrow> world \<Rightarrow> (error + bytes) \<times> world" where
  "os_ReadFile p w =
     ((if failing w (SysReadFile p) then Inl IOError else k_readfile w p),
      logged (SysReadFile p) w)"

definition os_ReadDir :: "path \<Rightarrow> world \<Rightarrow> (error + string list) \<times> world" where
  "os_ReadDir p w =
     ((if failing w (SysReadDir p) then Inl IOError else k_readdir w p),
      logged (SysReadDir p) w)"

definition os_MkdirAll :: "path \<Rightarrow> world \<Rightarrow> error option \<times> world" where
  "os_MkdirAll p w =
     (case k_mkdirall w p of
        Inl e \<Rightarrow> (Some e, logged (SysMkdirAll p) w)
      | Inr t \<Rightarrow> (None, logged (SysMkdirAll p) (w\<lparr>tree := t\<rparr>)))"

definition os_WriteFile :: "path \<Rightarrow> bytes \<Rightarrow> world \<Rightarrow> error option \<times> world" where
  "os_WriteFile p b w =
     (case k_writefile w p b of
        Inl e \<Rightarrow> (Some e, logged (SysWriteFile p b) w)
      | Inr t \<Rightarrow> (None, logged (SysWriteFile p b) (w\<lparr>tree := t\<rparr>)))"

definition os_Rename :: "path \<Rightarrow> path \<Rightarrow> world \<Rightarrow> error option \<times> world" where
  "os_Rename old new w =
     (case k_rename w old new of
        Inl e \<Rightarrow> (Some e, logged (SysRename old new) w)
      | Inr t \<Rightarrow> (None, logged (SysRename old new) (w\<lparr>tree := t\<rparr>)))"

definition os_RemoveAll :: "path \<Rightarrow> world \<Rightarrow> error option \<times> world" where
  "os_RemoveAll p w =
     (case k_removeall w p of (e, t) \<Rightarrow> (e, logged (SysRemoveAll p) (w\<lparr>tree := t\<rparr>)))"

subsection \<open>The serializer\<close>

text \<open>
  \<^verbatim>\<open>encoding/json\<close> is a collaborator of the store, which passes values through
  untouched; it is a parameter of the model. \<^verbatim>\<open>marshal\<close> stands for
  \<^verbatim>\<open>json.MarshalIndent(v, "", "\t")\<close>; \<^verbatim>\<open>unmarshal b old\<close> stands for
  \<^verbatim>\<open>json.Unmarshal(b, &v)\<close> on a target that holds \<^verbatim>\<open>old\<close>, and gives the target's
  new value.
\<close>

record 'v codec =
  marshal :: "'v \<Rightarrow> bytes option"
  unmarshal :: "bytes \<Rightarrow> 'v \<Rightarrow> 'v option"

text \<open>
  The instance for Go's \<^verbatim>\<open>bool\<close>: \<^verbatim>\<open>true\<close> and \<^verbatim>\<open>false\<close> are written as such;
  reading skips the white space around the literal, and \<^verbatim>\<open>null\<close> leaves the target as
  it is.
\<close>

definition json_space :: "char \<Rightarrow> bool" where
  "json_space c = (c = CHR '' '' \<or> c = CHR 0x09 \<or> c = CHR 0x0A \<or> c = CHR 0x0D)"

definition json_trim :: "bytes \<Rightarrow> bytes" where
  "json_trim b = rev (dropWhile json_space (rev (dropWhile json_space b)))"

definition bool_codec :: "bool codec" where
  "bool_codec =
     \<lparr> marshal = (\<lambda>v. Some (if v then ''true'' else ''false'')),
       unmarshal = (\<lambda>b old.
         (let s = json_trim b
          in if s = ''true'' then Some True
             else if s = ''false'' then Some False
             else if s = ''null'' then Some old
             else None)) \<rparr>"

section \<open>The program\<close>

text \<open>
  \<^verbatim>\<open>Driver\<close>: the root directory and the registry of locks, a map from collection names
  to mutex objects. The registry's own mutex and the logger hold no data the operations
  read. A method takes the driver and the world and returns both as it leaves them. A
  run of one method alone finds every lock free, so \<^verbatim>\<open>Lock\<close> and the deferred
  \<^verbatim>\<open>Unlock\<close> change nothing that is modelled.
\<close>

record driver =
  dir :: path
  mutexes :: "string \<rightharpoonup> nat"

definition getOrCreateMutex :: "string \<Rightarrow> driver \<Rightarrow> world \<Rightarrow> nat \<times> driver \<times> world" where
  "getOrCreateMutex collection d w =
     (case mutexes d collection of
        Some m \<Rightarrow> (m, d, w)
      | None \<Rightarrow>
         (let m = heap_mutexes w
          in (m, d\<lparr>mutexes := (mutexes d)(collection \<mapsto> m)\<rparr>, w\<lparr>heap_mutexes := Suc m\<rparr>)))"

definition stat :: "path \<Rightarrow> world \<Rightarrow> (error + file_mode) \<times> world" where
  "stat p w =
     (case os_Stat p w of
        (Inl err, w1) \<Rightarrow> (if os_IsNotExist err then os_Stat (p @ ''.json'') w1 else (Inl err, w1))
      | (Inr fi, w1) \<Rightarrow> (Inr fi, w1))"

definition New :: "path \<Rightarrow> world \<Rightarrow> driver \<times> error option \<times> world" where
  "New dir0 w =
     (let dir = filepath_Clean dir0;
          d = \<lparr>dir = dir, mutexes = Map.empty\<rparr>
      in (case os_Stat dir w of
            (Inr fi, w1) \<Rightarrow> (d, None, w1)
          | (Inl err, w1) \<Rightarrow> (case os_MkdirAll dir w1 of (e, w2) \<Rightarrow> (d, e, w2))))"

definition Write :: "'v codec \<Rightarrow> string \<Rightarrow> string \<Rightarrow> 'v \<Rightarrow> driver \<Rightarrow> world
    \<Rightarrow> error option \<times> driver \<times> world" where
  "Write cdc collection resource v d w =
     (if collection = [] then
        (Some (ErrorString ''Missing collection - no place to save record!''), d, w)
      else if resource = [] then
        (Some (ErrorString ''Missing resource - unable to save record (no name)!''), d, w)
      else
        (case getOrCreateMutex collection d w of
           (mutex, d1, w1) \<Rightarrow>
             (let dir = filepath_Join [driver.dir d1, collection];
                  fnlPath = filepath_Join [dir, resource @ ''.json''];
                  tmpPath = fnlPath @ ''.tmp''
              in (case os_MkdirAll dir w1 of
                    (Some err, w2) \<Rightarrow> (Some err, d1, w2)
                  | (None, w2) \<Rightarrow>
                     (case marshal cdc v of
                        None \<Rightarrow> (Some EncodeError, d1, w2)
                      | Some b \<Rightarrow>
                         (case os_WriteFile tmpPath (b @ [newline]) w2 of
                            (Some err, w3) \<Rightarrow> (Some err, d1, w3)
                          | (None, w3) \<Rightarrow>
                             (case os_Rename tmpPath fnlPath w3 of
                                (e, w4) \<Rightarrow> (e, d1, w4))))))))"

definition Read :: "'v codec \<Rightarrow> string \<Rightarrow> string \<Rightarrow> 'v \<Rightarrow> driver \<Rightarrow> world
    \<Rightarrow> (error + 'v) \<times> world" where
  "Read cdc collection resource out d w =
     (if collection = [] then
        (Inl (ErrorString ''Missing collection - unable to read record!''), w)
      else if resource = [] then
        (Inl (ErrorString ''Missing resource - unable to read record (no name)!''), w)
      else
        (let record = filepath_Join [driver.dir d, collection, resource]
         in (case stat record w of
               (Inl err, w1) \<Rightarrow> (Inl err, w1)
             | (Inr fi, w1) \<Rightarrow>
                (case os_ReadFile (record @ ''.json'') w1 of
                   (Inl err, w2) \<Rightarrow> (Inl err, w2)
                 | (Inr b, w2) \<Rightarrow>
                    (case unmarshal cdc b out of
                       None \<Rightarrow> (Inl DecodeError, w2)
                     | Some v \<Rightarrow> (Inr v, w2))))))"

text \<open>The loop of \<^verbatim>\<open>ReadAll\<close> over the directory's entries.\<close>

fun read_files :: "path \<Rightarrow> string list \<Rightarrow> string list \<Rightarrow> world \<Rightarrow> (error + string list) \<times> world" where
  "read_files dirname [] records w = (Inr records, w)"
| "read_files dirname (file # files) records w =
     (case os_ReadFile (filepath_Join [dirname, file]) w of
        (Inl err, w1) \<Rightarrow> (Inl err, w1)
      | (Inr b, w1) \<Rightarrow> read_files dirname files (records @ [b]) w1)"

definition ReadAll :: "string \<Rightarrow> driver \<Rightarrow> world \<Rightarrow> (error + string list) \<times> world" where
  "ReadAll collection d w =
     (if collection = [] then (Inl (ErrorString ''Missing collection - unable to read''), w)
      else
        (let dir = filepath_Join [driver.dir d, collection]
         in (case stat dir w of
               (Inl err, w1) \<Rightarrow> (Inl err, w1)
             | (Inr fi, w1) \<Rightarrow>
                (case os_ReadDir dir w1 of
                   (Inl err, w2) \<Rightarrow> read_files dir [] [] w2
                 | (Inr files, w2) \<Rightarrow> read_files dir files [] w2))))"

definition Delete :: "string \<Rightarrow> string \<Rightarrow> driver \<Rightarrow> world \<Rightarrow> error option \<times> driver \<times> world" where
  "Delete collection resource d w =
     (let path = filepath_Join [collection, resource]
      in (case getOrCreateMutex collection d w of
            (mutex, d1, w1) \<Rightarrow>
              (let dir = filepath_Join [driver.dir d1, path]
               in (case stat dir w1 of
                     (Inl err, w2) \<Rightarrow>
                       (Some (ErrorString (''unable to find file or directory name '' @ path @ [newline])),
                        d1, w2)
                   | (Inr ModeDir, w2) \<Rightarrow>
                       (case os_RemoveAll dir w2 of (e, w3) \<Rightarrow> (e, d1, w3))
                   | (Inr ModeRegular, w2) \<Rightarrow>
                       (case os_RemoveAll (dir @ ''.json'') w2 of (e, w3) \<Rightarrow> (e, d1, w3))))))"

section \<open>Examples\<close>

text \<open>
  A file system that holds the root directory and an empty working directory
  \<^verbatim>\<open>/home\<close>, before the program has run.
\<close>

definition w0 :: world where
  "w0 = \<lparr> tree = [([], Dir), ([''home''], Dir)], cwd = [''home''], syslog = [], faults = [],
     heap_mutexes = 0 \<rparr>"

text \<open>The store \<^verbatim>\<open>db\<close>, opened in that file system.\<close>

definition d_db :: driver where
  "d_db = fst (New ''db'' w0)"

definition w_db :: world where
  "w_db = snd (snd (New ''db'' w0))"

text \<open>The same store after \<^verbatim>\<open>Write("c", "x", true)\<close>.\<close>

definition d_x :: driver where
  "d_x = fst (snd (Write bool_codec ''c'' ''x'' True d_db w_db))"

definition w_x :: world where
  "w_x = snd (snd (Write bool_codec ''c'' ''x'' True d_db w_db))"

text \<open>
  The store \<^verbatim>\<open>db\<close> after \<^verbatim>\<open>Write("c/x.json", "y", true)\<close>: the collection
  \<^verbatim>\<open>c/x.json\<close> is the directory \<^verbatim>\<open>db/c/x.json\<close>.
\<close>

definition d_y :: driver where
  "d_y = fst (snd (Write bool_codec ''c/x.json'' ''y'' True d_db w_db))"

definition w_y :: world where
  "w_y = snd (snd (Write bool_codec ''c/x.json'' ''y'' True d_db w_db))"

text \<open>The store \<^verbatim>\<open>db\<close> after \<^verbatim>\<open>Write("c", ".", true)\<close>.\<close>

definition d_dot :: driver where
  "d_dot = fst (snd (Write bool_codec ''c'' ''.'' True d_db w_db))"

definition w_dot :: world where
  "w_dot = snd (snd (Write bool_codec ''c'' ''.'' True d_db w_db))"

text \<open>The store opened as \<^verbatim>\<open>main\<close> opens it, with \<^verbatim>\<open>New("./", nil)\<close>.\<close>

definition d_cwd :: driver where
  "d_cwd = fst (New ''./'' w0)"

definition w_cwd :: world where
  "w_cwd = snd (snd (Write bool_codec ''c'' ''x'' True d_cwd (snd (snd (New ''./'' w0)))))"

text \<open>
  The store \<^verbatim>\<open>db\<close> with the record \<^verbatim>\<open>c/x\<close> and the temporary file of a
  \<^verbatim>\<open>Write("c", "y", false)\<close> that was interrupted before its rename.
\<close>

definition w_stale :: world where
  "w_stale = snd (os_WriteFile ''db/c/y.json.tmp'' (''false'' @ [newline]) w_x)"

text \<open>
  The store \<^verbatim>\<open>db\<close> with the record \<^verbatim>\<open>c/x\<close>, where the environment refuses to
  list the collection directory, and where it refuses to read the record's file.
\<close>

definition w_nolist :: world where
  "w_nolist = w_x\<lparr>faults := [SysReadDir ''db/c'']\<rparr>"

definition w_noread :: world where
  "w_noread = w_x\<lparr>faults := [SysReadFile ''db/c/x.json'']\<rparr>"

section \<open>Paths: what a suffix does to a path\<close>

lemma split_sep_not_Nil: "split_sep p \<noteq> []"
  by (induction p) (auto split: list.splits)

lemma split_sep_append_sep: "split_sep (a @ CHR ''/'' # b) = split_sep a @ split_sep b"
  by (induction a) (auto split: list.splits simp: split_sep_not_Nil)

lemma split_sep_nosep: "CHR ''/'' \<notin> set s \<Longrightarrow> split_sep s = [s]"
  by (induction s) auto

lemma split_sep_suffix:
  "CHR ''/'' \<notin> set sfx \<Longrightarrow>
   split_sep (p @ sfx) = butlast (split_sep p) @ [last (split_sep p) @ sfx]"
  by (induction p) (auto split: list.splits simp: split_sep_not_Nil split_sep_nosep)

lemma split_sep_nosep_elems: "c \<in> set (split_sep p) \<Longrightarrow> CHR ''/'' \<notin> set c"
  by (induction p arbitrary: c) (auto split: list.splits if_splits)

lemma pcomps_suffix:
  assumes "CHR ''/'' \<notin> set sfx" "sfx \<noteq> []"
  shows "pcomps (p @ sfx) =
    filter (\<lambda>c. c \<noteq> []) (butlast (split_sep p)) @ [last (split_sep p) @ sfx]"
  using assms by (simp add: pcomps_def split_sep_suffix)

lemma pcomps_self:
  "pcomps p = filter (\<lambda>c. c \<noteq> []) (butlast (split_sep p)) @
     (if last (split_sep p) = [] then [] else [last (split_sep p)])"
proof -
  have "split_sep p = butlast (split_sep p) @ [last (split_sep p)]"
    by (simp add: split_sep_not_Nil)
  then have "pcomps p = filter (\<lambda>c. c \<noteq> []) (butlast (split_sep p) @ [last (split_sep p)])"
    by (simp add: pcomps_def)
  then show ?thesis by simp
qed

lemma rooted_append: "p \<noteq> [] \<Longrightarrow> rooted (p @ s) = rooted p"
  by (simp add: rooted_def)

lemma start_append: "p \<noteq> [] \<Longrightarrow> start w (p @ s) = start w p"
  by (simp add: start_def rooted_append)

section \<open>The file system: resolution\<close>

lemma namei_append:
  "namei t cur (xs @ ys) = (case namei t cur xs of Inl e \<Rightarrow> Inl e | Inr l \<Rightarrow> namei t l ys)"
  by (induction xs arbitrary: cur) (auto split: option.splits node.splits)

lemma namei_loc: "namei t cur cs = Inr l \<Longrightarrow> l = foldl step cur cs"
  by (induction cs arbitrary: cur) (auto split: option.splits node.splits)

lemma lookup_path_resolve: "lookup_path w p = Inr l \<Longrightarrow> l = resolve w p"
  by (auto simp: lookup_path_def resolve_def split: if_splits dest: namei_loc)

lemma namei_mono:
  "namei t cur cs = Inr l \<Longrightarrow> (\<And>q. map_of t q = Some Dir \<Longrightarrow> map_of t' q = Some Dir) \<Longrightarrow>
   namei t' cur cs = Inr l"
  by (induction cs arbitrary: cur) (auto split: option.splits node.splits)

lemma namei_error: "namei t cur cs = Inl e \<Longrightarrow> e = NotExist \<or> e = IOError"
  by (induction cs arbitrary: cur) (auto split: option.splits node.splits)

lemma lookup_path_error: "lookup_path w p = Inl e \<Longrightarrow> e = NotExist \<or> e = IOError"
  by (auto simp: lookup_path_def split: if_splits dest: namei_error)

lemma k_stat_error: "k_stat w p = Inl e \<Longrightarrow> e = NotExist \<or> e = IOError"
  by (auto simp: k_stat_def split: sum.splits option.splits node.splits dest: lookup_path_error)

lemma k_readfile_of_stat_error: "k_stat w p = Inl e \<Longrightarrow> k_readfile w p = Inl e"
  by (auto simp: k_stat_def k_readfile_def split: sum.splits option.splits node.splits)

text \<open>The walk to a path and to the path with a suffix.\<close>

lemma lookup_path_suffix:
  assumes "p \<noteq> []" "CHR ''/'' \<notin> set sfx" "sfx \<noteq> []"
  shows "lookup_path w (p @ sfx) =
    (case namei (tree w) (start w p) (filter (\<lambda>c. c \<noteq> []) (butlast (split_sep p))) of
       Inl e \<Rightarrow> Inl e
     | Inr l \<Rightarrow> namei (tree w) l [last (split_sep p) @ sfx])"
  using assms by (simp add: lookup_path_def pcomps_suffix namei_append start_append)

lemma lookup_path_self:
  assumes "p \<noteq> []"
  shows "lookup_path w p =
    (case namei (tree w) (start w p) (filter (\<lambda>c. c \<noteq> []) (butlast (split_sep p))) of
       Inl e \<Rightarrow> Inl e
     | Inr l \<Rightarrow> (if last (split_sep p) = [] then Inr l else namei (tree w) l [last (split_sep p)]))"
proof -
  have "lookup_path w p = namei (tree w) (start w p) (pcomps p)"
    using assms by (simp add: lookup_path_def)
  also have "\<dots> = namei (tree w) (start w p) (filter (\<lambda>c. c \<noteq> []) (butlast (split_sep p)) @
     (if last (split_sep p) = [] then [] else [last (split_sep p)]))"
    using pcomps_self [of p] by simp
  finally show ?thesis
    by (simp add: namei_append split: sum.splits)
qed

lemma lookup_path_suffix_error:
  assumes "lookup_path w p = Inl IOError" "CHR ''/'' \<notin> set sfx" "sfx \<noteq> []"
  shows "lookup_path w (p @ sfx) = Inl IOError"
proof -
  have ne: "p \<noteq> []" using assms(1) by (auto simp: lookup_path_def)
  show ?thesis
    using assms(1) unfolding lookup_path_suffix [OF ne assms(2,3)] lookup_path_self [OF ne]
    by (auto split: sum.splits option.splits node.splits if_splits)
qed

lemma k_readfile_suffix_error:
  assumes "k_stat w p = Inl IOError" "CHR ''/'' \<notin> set sfx" "sfx \<noteq> []"
  shows "k_readfile w (p @ sfx) = Inl IOError"
proof -
  have "lookup_path w p = Inl IOError"
    using assms(1) by (auto simp: k_stat_def split: sum.splits option.splits node.splits)
  then have "lookup_path w (p @ sfx) = Inl IOError"
    using assms(2,3) by (rule lookup_path_suffix_error)
  then show ?thesis by (simp add: k_readfile_def)
qed

lemma logged_fields [simp]:
  "tree (logged c w) = tree w"
  "cwd (logged c w) = cwd w"
  "syslog (logged c w) = syslog w @ [c]"
  "faults (logged c w) = faults w"
  "heap_mutexes (logged c w) = heap_mutexes w"
  by (simp_all add: logged_def)

lemma no_faults [simp]: "faults w = [] \<Longrightarrow> \<not> failing w c"
  by (simp add: failing_def)

lemma logged_lookup [simp]:
  "node_at (logged c w) = node_at w"
  "lookup_path (logged c w) = lookup_path w"
  "resolve (logged c w) = resolve w"
  by (auto simp: fun_eq_iff lookup_path_def node_at_def start_def resolve_def)

lemma k_logged [simp]:
  "k_stat (logged c w) = k_stat w"
  "k_readfile (logged c w) = k_readfile w"
  "k_readdir (logged c w) = k_readdir w"
  by (auto simp: fun_eq_iff k_stat_def k_readfile_def k_readdir_def
      split: sum.splits option.splits node.splits)

lemma fst_stat:
  assumes "faults w = []"
  shows "fst (stat p w) =
     (case k_stat w p of
        Inl e \<Rightarrow> (if e = NotExist then k_stat w (p @ ''.json'') else Inl e)
      | Inr fi \<Rightarrow> Inr fi)"
  using assms by (simp add: stat_def os_Stat_def os_IsNotExist_def split: sum.splits)

declare filepath_Join.simps [simp del]

lemma Read_result:
  assumes "collection \<noteq> []" "resource \<noteq> []" "faults w = []"
  shows "fst (Read cdc collection resource out d w) =
    (case k_readfile w (filepath_Join [driver.dir d, collection, resource] @ ''.json'') of
       Inl e \<Rightarrow> Inl e
     | Inr b \<Rightarrow> (case unmarshal cdc b out of None \<Rightarrow> Inl DecodeError | Some v \<Rightarrow> Inr v))"
proof -
  define rcd where "rcd = filepath_Join [driver.dir d, collection, resource]"
  have sfx: "CHR ''/'' \<notin> set ''.json''" "''.json'' \<noteq> []" by simp_all
  have R: "fst (Read cdc collection resource out d w) =
    (case fst (stat rcd w) of
       Inl err \<Rightarrow> Inl err
     | Inr fi \<Rightarrow>
        (case k_readfile w (rcd @ ''.json'') of
           Inl e \<Rightarrow> Inl e
         | Inr b \<Rightarrow> (case unmarshal cdc b out of None \<Rightarrow> Inl DecodeError | Some v \<Rightarrow> Inr v)))"
    using assms
    by (simp add: Read_def Let_def rcd_def stat_def os_Stat_def os_ReadFile_def
        split: sum.splits option.splits)
  note fst_stat = fst_stat [OF assms(3)]
  consider (ok) fi where "k_stat w rcd = Inr fi"
    | (io) "k_stat w rcd = Inl IOError"
    | (ne) "k_stat w rcd = Inl NotExist"
    using k_stat_error [of w rcd] by (cases "k_stat w rcd") auto
  then have "fst (Read cdc collection resource out d w) =
    (case k_readfile w (rcd @ ''.json'') of
       Inl e \<Rightarrow> Inl e
     | Inr b \<Rightarrow> (case unmarshal cdc b out of None \<Rightarrow> Inl DecodeError | Some v \<Rightarrow> Inr v))"
  proof cases
    case ok
    then show ?thesis by (simp add: R fst_stat)
  next
    case io
    from k_readfile_suffix_error [OF io sfx] io show ?thesis
      by (simp add: R fst_stat)
  next
    case ne
    show ?thesis
    proof (cases "k_stat w (rcd @ ''.json'')")
      case (Inl e)
      with ne k_readfile_of_stat_error [OF Inl] show ?thesis
        by (simp add: R fst_stat)
    next
      case (Inr fi)
      with ne show ?thesis
        by (simp add: R fst_stat)
    qed
  qed
  then show ?thesis by (simp add: rcd_def)
qed

section \<open>The driver\<close>

lemma getOrCreateMutex_again:
  "getOrCreateMutex c d w = (m, d1, w1) \<Longrightarrow> getOrCreateMutex c d1 w1 = (m, d1, w1)"
  by (auto simp: getOrCreateMutex_def Let_def split: option.splits)

lemma getOrCreateMutex_keeps:
  "getOrCreateMutex c d w = (m, d1, w1) \<Longrightarrow> mutexes d \<subseteq>\<^sub>m mutexes d1"
  by (auto simp: getOrCreateMutex_def Let_def map_le_def split: option.splits)

lemma Write_driver:
  "fst (snd (Write cdc c r v d w)) = d \<or>
   fst (snd (Write cdc c r v d w)) = fst (snd (getOrCreateMutex c d w))"
  by (auto simp: Write_def Let_def split: prod.splits option.splits)

lemma Delete_driver:
  "fst (snd (Delete c r d w)) = fst (snd (getOrCreateMutex c d w))"
  by (auto simp: Delete_def Let_def split: prod.splits option.splits sum.splits file_mode.splits)

section \<open>The file system: what the calls change\<close>

lemma mkdirs_effect:
  "mkdirs t cur cs = Inr t' \<Longrightarrow>
   map_of t' q = map_of t q \<or> (map_of t q = None \<and> map_of t' q = Some Dir)"
proof (induction cs arbitrary: t cur)
  case Nil
  then show ?case by simp
next
  case (Cons c cs)
  show ?case
  proof (cases "map_of t (step cur c)")
    case None
    with Cons.prems have m: "mkdirs (AList.update (step cur c) Dir t) (step cur c) cs = Inr t'"
      by (auto split: if_splits)
    from Cons.IH [OF m] None show ?thesis
      by (auto simp: update_conv' split: if_splits)
  next
    case (Some n)
    with Cons.prems have "mkdirs t (step cur c) cs = Inr t'"
      by (cases n) auto
    from Cons.IH [OF this] show ?thesis .
  qed
qed

lemma k_mkdirall_effect:
  "k_mkdirall w p = Inr t' \<Longrightarrow>
   map_of t' q = node_at w q \<or> (node_at w q = None \<and> map_of t' q = Some Dir)"
  by (auto simp: k_mkdirall_def node_at_def split: if_splits option.splits node.splits
      dest: mkdirs_effect)

lemma k_writefile_effect:
  assumes "k_writefile w p b = Inr t'"
  shows "map_of t' = (map_of (tree w))(resolve w p \<mapsto> File b)"
    and "lookup_path w p = Inr (resolve w p)"
    and "node_at w (resolve w p) \<noteq> Some Dir"
proof -
  from assms obtain l where l: "lookup_path w p = Inr l"
    by (auto simp: k_writefile_def split: sum.splits)
  then have [simp]: "l = resolve w p" by (rule lookup_path_resolve)
  from l show "lookup_path w p = Inr (resolve w p)" by simp
  from assms l show "node_at w (resolve w p) \<noteq> Some Dir"
    by (auto simp: k_writefile_def split: option.splits node.splits)
  from assms l show "map_of t' = (map_of (tree w))(resolve w p \<mapsto> File b)"
    by (auto simp: k_writefile_def update_conv' split: option.splits node.splits)
qed

lemma k_rename_file_effect:
  assumes "k_rename w old new = Inr t'"
    and "node_at w (resolve w old) = Some (File b)"
    and "resolve w old \<noteq> resolve w new"
  shows "map_of t' = ((map_of (tree w))(resolve w old := None))(resolve w new \<mapsto> File b)"
    and "lookup_path w old = Inr (resolve w old)"
    and "lookup_path w new = Inr (resolve w new)"
    and "node_at w (resolve w new) \<noteq> Some Dir"
proof -
  from assms(1) obtain src dst where
    s: "lookup_path w old = Inr src" and d: "lookup_path w new = Inr dst"
    by (auto simp: k_rename_def split: sum.splits)
  have [simp]: "src = resolve w old" "dst = resolve w new"
    using s d by (auto dest: lookup_path_resolve)
  from s show "lookup_path w old = Inr (resolve w old)" by simp
  from d show "lookup_path w new = Inr (resolve w new)" by simp
  from assms s d show "node_at w (resolve w new) \<noteq> Some Dir"
    by (auto simp: k_rename_def split: if_splits)
  from assms s d show "map_of t' = ((map_of (tree w))(resolve w old := None))(resolve w new \<mapsto> File b)"
    by (auto simp: k_rename_def update_conv' delete_conv' split: if_splits)
qed

text \<open>A path with a suffix such as \<^verbatim>\<open>.tmp\<close> names another location than the path.\<close>

lemma foldl_step_snoc: "foldl step cur (cs @ [c]) = step (foldl step cur cs) c"
  by simp

lemma resolve_suffix:
  assumes "CHR ''/'' \<notin> set sfx" "sfx \<noteq> []" "p \<noteq> []"
  shows "resolve w (p @ sfx) =
    step (foldl step (start w p) (filter (\<lambda>c. c \<noteq> []) (butlast (split_sep p))))
      (last (split_sep p) @ sfx)"
  using assms by (simp add: resolve_def pcomps_suffix start_append)

lemma resolve_self:
  "resolve w p =
    (let base = foldl step (start w p) (filter (\<lambda>c. c \<noteq> []) (butlast (split_sep p)))
     in if last (split_sep p) = [] then base else step base (last (split_sep p)))"
proof -
  have "resolve w p = foldl step (start w p) (filter (\<lambda>c. c \<noteq> []) (butlast (split_sep p)) @
     (if last (split_sep p) = [] then [] else [last (split_sep p)]))"
    unfolding resolve_def using pcomps_self [of p] by simp
  then show ?thesis by (simp add: Let_def)
qed

lemma step_cases: "step cur c = cur \<or> step cur c = butlast cur \<or> step cur c = cur @ [c]"
  by (simp add: step_def)

lemma append_ne_butlast: "xs @ [x] \<noteq> butlast xs"
proof
  assume "xs @ [x] = butlast xs"
  then have "length (xs @ [x]) = length (butlast xs)" by simp
  then show False by simp
qed

lemma resolve_tmp_ne: "resolve w (p @ ''.tmp'') \<noteq> resolve w p"
proof (cases "p = []")
  case True
  then show ?thesis
    by (simp add: resolve_def start_def rooted_def pcomps_def step_def)
next
  case False
  define base where "base = foldl step (start w p) (filter (\<lambda>c. c \<noteq> []) (butlast (split_sep p)))"
  define s where "s = last (split_sep p)"
  have "s @ ''.tmp'' \<noteq> ''.''" "s @ ''.tmp'' \<noteq> ''..''"
    by (cases s; simp)+
  then have a: "resolve w (p @ ''.tmp'') = base @ [s @ ''.tmp'']"
    using resolve_suffix [of "''.tmp''" p w] False
    by (simp add: base_def s_def step_def)
  have b: "resolve w p = (if s = [] then base else step base s)"
    using resolve_self [of w p] by (simp add: base_def s_def Let_def)
  show ?thesis
    using step_cases [of base s] append_ne_butlast [of base "s @ ''.tmp''"]
    unfolding a b by (auto split: if_splits)
qed

section \<open>\<^verbatim>\<open>Write\<close>: the temporary file and the rename\<close>

lemma getOrCreateMutex_frame:
  "driver.dir (fst (snd (getOrCreateMutex c d w))) = driver.dir d"
  "tree (snd (snd (getOrCreateMutex c d w))) = tree w"
  "cwd (snd (snd (getOrCreateMutex c d w))) = cwd w"
  "syslog (snd (snd (getOrCreateMutex c d w))) = syslog w"
  "faults (snd (snd (getOrCreateMutex c d w))) = faults w"
  by (auto simp: getOrCreateMutex_def Let_def split: option.splits)

lemma same_files:
  assumes "tree w' = tree w" "cwd w' = cwd w"
  shows "node_at w' = node_at w" "lookup_path w' = lookup_path w" "resolve w' = resolve w"
    "k_stat w' = k_stat w" "k_readfile w' = k_readfile w" "k_readdir w' = k_readdir w"
    "k_mkdirall w' = k_mkdirall w" "k_writefile w' = k_writefile w" "k_rename w' = k_rename w"
    "k_removeall w' = k_removeall w"
proof -
  show a: "node_at w' = node_at w" "lookup_path w' = lookup_path w" "resolve w' = resolve w"
    using assms by (auto simp: fun_eq_iff node_at_def lookup_path_def resolve_def start_def)
  have st: "start w' = start w" using assms by (auto simp: fun_eq_iff start_def)
  show "k_stat w' = k_stat w" "k_readfile w' = k_readfile w" "k_readdir w' = k_readdir w"
    "k_mkdirall w' = k_mkdirall w" "k_writefile w' = k_writefile w" "k_rename w' = k_rename w"
    "k_removeall w' = k_removeall w"
    using assms
    by (simp_all add: fun_eq_iff k_stat_def k_readfile_def k_readdir_def k_mkdirall_def
        k_writefile_def k_rename_def k_removeall_def a st
        cong: sum.case_cong option.case_cong node.case_cong if_cong)
qed

lemma Write_run:
  assumes "Write cdc collection resource v d w = (None, d', w')"
  defines "dirp \<equiv> filepath_Join [driver.dir d, collection]"
  defines "fnl \<equiv> filepath_Join [filepath_Join [driver.dir d, collection], resource @ ''.json'']"
  shows "\<exists>b t2 t3 t4.
    marshal cdc v = Some b \<and>
    k_mkdirall w dirp = Inr t2 \<and>
    k_writefile (w\<lparr>tree := t2\<rparr>) (fnl @ ''.tmp'') (b @ [newline]) = Inr t3 \<and>
    k_rename (w\<lparr>tree := t3\<rparr>) (fnl @ ''.tmp'') fnl = Inr t4 \<and>
    tree w' = t4 \<and> cwd w' = cwd w \<and> faults w' = faults w \<and>
    driver.dir d' = driver.dir d \<and>
    syslog w' = syslog w @ [SysMkdirAll dirp, SysWriteFile (fnl @ ''.tmp'') (b @ [newline]),
      SysRename (fnl @ ''.tmp'') fnl]"
proof -
  obtain m d1 w1 where g: "getOrCreateMutex collection d w = (m, d1, w1)"
    by (cases "getOrCreateMutex collection d w") auto
  have f: "driver.dir d1 = driver.dir d" "tree w1 = tree w" "cwd w1 = cwd w" "syslog w1 = syslog w"
    "faults w1 = faults w"
    using getOrCreateMutex_frame [of collection d w] g by simp_all
  have k1: "k_mkdirall w1 = k_mkdirall w"
    using f by (intro same_files) simp_all
  have ne: "collection \<noteq> []" "resource \<noteq> []"
    using assms(1) by (auto simp: Write_def split: if_splits)
  from assms(1) ne g f obtain t2 where m2: "k_mkdirall w dirp = Inr t2"
    by (cases "k_mkdirall w dirp")
      (auto simp: Write_def Let_def os_MkdirAll_def k1 dirp_def split: sum.splits)
  define w2 where "w2 = logged (SysMkdirAll dirp) (w1\<lparr>tree := t2\<rparr>)"
  from assms(1) ne g f m2 obtain b where b: "marshal cdc v = Some b"
    by (cases "marshal cdc v")
      (auto simp: Write_def Let_def os_MkdirAll_def k1 dirp_def split: sum.splits)
  have k2: "k_writefile (logged c (w1\<lparr>tree := t2\<rparr>)) = k_writefile (w\<lparr>tree := t2\<rparr>)" for c
    using f by (intro same_files) simp_all
  from assms(1) ne g f m2 b obtain t3 where
    m3: "k_writefile (w\<lparr>tree := t2\<rparr>) (fnl @ ''.tmp'') (b @ [newline]) = Inr t3"
    by (cases "k_writefile (w\<lparr>tree := t2\<rparr>) (fnl @ ''.tmp'') (b @ [newline])")
      (auto simp: Write_def Let_def os_MkdirAll_def os_WriteFile_def k1 k2
        dirp_def fnl_def split: sum.splits)
  define w3 where "w3 = logged (SysWriteFile (fnl @ ''.tmp'') (b @ [newline])) (w2\<lparr>tree := t3\<rparr>)"
  have k3: "k_rename (logged c ((logged c' (w1\<lparr>tree := t2\<rparr>))\<lparr>tree := t3\<rparr>)) =
      k_rename (w\<lparr>tree := t3\<rparr>)" for c c'
    using f by (intro same_files) simp_all
  from assms(1) ne g f m2 b m3 have
    run: "(None, d', w') = (case os_Rename (fnl @ ''.tmp'') fnl w3 of (e, w4) \<Rightarrow> (e, d1, w4))"
    by (simp add: Write_def Let_def os_MkdirAll_def os_WriteFile_def k1 k2
        dirp_def fnl_def w3_def w2_def)
  then obtain t4 where m4: "k_rename (w\<lparr>tree := t3\<rparr>) (fnl @ ''.tmp'') fnl = Inr t4"
    by (cases "k_rename (w\<lparr>tree := t3\<rparr>) (fnl @ ''.tmp'') fnl")
      (auto simp: os_Rename_def k3 w3_def w2_def split: sum.splits)
  from run m4 have "d' = d1" "w' = logged (SysRename (fnl @ ''.tmp'') fnl) (w3\<lparr>tree := t4\<rparr>)"
    by (auto simp: os_Rename_def k3 w3_def w2_def)
  then have "tree w' = t4" "cwd w' = cwd w" "faults w' = faults w" "driver.dir d' = driver.dir d"
    "syslog w' = syslog w @ [SysMkdirAll dirp, SysWriteFile (fnl @ ''.tmp'') (b @ [newline]),
      SysRename (fnl @ ''.tmp'') fnl]"
    using f by (simp_all add: w3_def w2_def)
  with b m2 m3 m4 show ?thesis by blast
qed

lemma lookup_path_mono:
  assumes "lookup_path w p = Inr l" "cwd w' = cwd w"
    and "\<And>q. node_at w q = Some Dir \<Longrightarrow> node_at w' q = Some Dir"
  shows "lookup_path w' p = Inr l"
proof -
  have "start w' p = start w p" using assms(2) by (simp add: start_def)
  then show ?thesis
    using assms(1,3) namei_mono [of "tree w" "start w p" "pcomps p" l "tree w'"]
    by (auto simp: lookup_path_def node_at_def split: if_splits)
qed

lemma tree_update_fields [simp]:
  "node_at (w\<lparr>tree := t\<rparr>) = map_of t"
  "resolve (w\<lparr>tree := t\<rparr>) = resolve w"
  by (auto simp: fun_eq_iff node_at_def resolve_def start_def)

lemma Write_effect:
  assumes "Write cdc collection resource v d w = (None, d', w')"
  shows "\<exists>b fnl t3.
    fnl = filepath_Join [filepath_Join [driver.dir d, collection], resource @ ''.json''] \<and>
    marshal cdc v = Some b \<and>
    driver.dir d' = driver.dir d \<and>
    cwd w' = cwd w \<and>
    faults w' = faults w \<and>
    syslog w' = syslog w @
      [SysMkdirAll (filepath_Join [driver.dir d, collection]),
       SysWriteFile (fnl @ ''.tmp'') (b @ [newline]),
       SysRename (fnl @ ''.tmp'') fnl] \<and>
    k_rename (w\<lparr>tree := t3\<rparr>) (fnl @ ''.tmp'') fnl = Inr (tree w') \<and>
    k_readfile (w\<lparr>tree := t3\<rparr>) (fnl @ ''.tmp'') = Inr (b @ [newline]) \<and>
    node_at (w\<lparr>tree := t3\<rparr>) (resolve w fnl) = node_at w (resolve w fnl) \<and>
    k_readfile w' fnl = Inr (b @ [newline]) \<and>
    k_stat w' (fnl @ ''.tmp'') = Inl NotExist"
proof -
  define fnl where "fnl = filepath_Join [filepath_Join [driver.dir d, collection], resource @ ''.json'']"
  define src where "src = resolve w (fnl @ ''.tmp'')"
  define dst where "dst = resolve w fnl"
  from Write_run [OF assms] obtain b t2 t3 where
    b: "marshal cdc v = Some b" and
    m2: "k_mkdirall w (filepath_Join [driver.dir d, collection]) = Inr t2" and
    m3: "k_writefile (w\<lparr>tree := t2\<rparr>) (fnl @ ''.tmp'') (b @ [newline]) = Inr t3" and
    m4: "k_rename (w\<lparr>tree := t3\<rparr>) (fnl @ ''.tmp'') fnl = Inr (tree w')" and
    fr: "cwd w' = cwd w" "driver.dir d' = driver.dir d" "faults w' = faults w" and
    lg: "syslog w' = syslog w @
      [SysMkdirAll (filepath_Join [driver.dir d, collection]),
       SysWriteFile (fnl @ ''.tmp'') (b @ [newline]),
       SysRename (fnl @ ''.tmp'') fnl]"
    unfolding fnl_def by blast
  have ne: "src \<noteq> dst"
    unfolding src_def dst_def by (rule resolve_tmp_ne)
  have t3: "map_of t3 = (map_of t2)(src \<mapsto> File (b @ [newline]))"
    and l3: "lookup_path (w\<lparr>tree := t2\<rparr>) (fnl @ ''.tmp'') = Inr src"
    and n3: "map_of t2 src \<noteq> Some Dir"
    using k_writefile_effect [OF m3] by (simp_all add: src_def node_at_def)
  have s3: "node_at (w\<lparr>tree := t3\<rparr>) (resolve (w\<lparr>tree := t3\<rparr>) (fnl @ ''.tmp'')) = Some (File (b @ [newline]))"
    by (simp add: t3 src_def)
  have ne': "resolve (w\<lparr>tree := t3\<rparr>) (fnl @ ''.tmp'') \<noteq> resolve (w\<lparr>tree := t3\<rparr>) fnl"
    using ne by (simp add: src_def dst_def)
  have t4: "map_of (tree w') = ((map_of t3)(src := None))(dst \<mapsto> File (b @ [newline]))"
    and l4s: "lookup_path (w\<lparr>tree := t3\<rparr>) (fnl @ ''.tmp'') = Inr src"
    and l4d: "lookup_path (w\<lparr>tree := t3\<rparr>) fnl = Inr dst"
    and n4: "map_of t3 dst \<noteq> Some Dir"
    using k_rename_file_effect [OF m4 s3 ne'] by (simp_all add: src_def dst_def)
  have before: "map_of t3 dst = node_at w dst"
  proof -
    have "map_of t3 dst = map_of t2 dst" using ne by (simp add: t3)
    moreover from n4 this have "map_of t2 dst \<noteq> Some Dir" by simp
    ultimately show ?thesis using k_mkdirall_effect [OF m2, of dst] by auto
  qed
  have r3: "k_readfile (w\<lparr>tree := t3\<rparr>) (fnl @ ''.tmp'') = Inr (b @ [newline])"
    by (simp add: k_readfile_def l4s t3)
  have dirs: "node_at w' q = Some Dir" if "node_at (w\<lparr>tree := t3\<rparr>) q = Some Dir" for q
  proof -
    from that have "q \<noteq> src" "q \<noteq> dst" using n4 by (auto simp: t3)
    then show ?thesis using that by (simp add: node_at_def t4)
  qed
  have c: "cwd w' = cwd (w\<lparr>tree := t3\<rparr>)" using fr by simp
  have "lookup_path w' fnl = Inr dst"
    using l4d c dirs by (rule lookup_path_mono)
  then have r4: "k_readfile w' fnl = Inr (b @ [newline])"
    by (simp add: k_readfile_def node_at_def t4)
  have "lookup_path w' (fnl @ ''.tmp'') = Inr src"
    using l4s c dirs by (rule lookup_path_mono)
  then have s4: "k_stat w' (fnl @ ''.tmp'') = Inl NotExist"
    using ne by (simp add: k_stat_def node_at_def t4)
  have "fnl = filepath_Join [filepath_Join [driver.dir d, collection], resource @ ''.json''] \<and>
    marshal cdc v = Some b \<and>
    driver.dir d' = driver.dir d \<and>
    cwd w' = cwd w \<and>
    faults w' = faults w \<and>
    syslog w' = syslog w @
      [SysMkdirAll (filepath_Join [driver.dir d, collection]),
       SysWriteFile (fnl @ ''.tmp'') (b @ [newline]),
       SysRename (fnl @ ''.tmp'') fnl] \<and>
    k_rename (w\<lparr>tree := t3\<rparr>) (fnl @ ''.tmp'') fnl = Inr (tree w') \<and>
    k_readfile (w\<lparr>tree := t3\<rparr>) (fnl @ ''.tmp'') = Inr (b @ [newline]) \<and>
    node_at (w\<lparr>tree := t3\<rparr>) (resolve w fnl) = node_at w (resolve w fnl) \<and>
    k_readfile w' fnl = Inr (b @ [newline]) \<and>
    k_stat w' (fnl @ ''.tmp'') = Inl NotExist"
    using b fr lg m4 r3 before r4 s4 by (simp add: fnl_def dst_def)
  then show ?thesis by blast
qed

section \<open>Paths: the shape of a cleaned path\<close>

lemma elems_append_sep: "elems (a @ CHR ''/'' # b) = elems a @ elems b"
  by (simp add: elems_def split_sep_append_sep)

lemma elems_name: "valid_name x \<Longrightarrow> elems x = [x]"
  by (simp add: elems_def valid_name_def split_sep_nosep)

lemma elems_valid: "c \<in> set (elems p) \<Longrightarrow> c \<noteq> [] \<and> c \<noteq> ''.'' \<and> CHR ''/'' \<notin> set c"
  by (auto simp: elems_def dest: split_sep_nosep_elems)

lemma clean_elems_append_rooted:
  "clean_elems True out (xs @ ys) = clean_elems True (clean_elems True out xs) ys"
  by (induction xs arbitrary: out) simp_all

lemma clean_elems_append_unrooted:
  "clean_elems False out (xs @ ys) = clean_elems False (clean_elems False out xs) ys"
  by (induction xs arbitrary: out) simp_all

lemma clean_elems_append:
  "clean_elems r out (xs @ ys) = clean_elems r (clean_elems r out xs) ys"
  by (cases r) (simp_all add: clean_elems_append_rooted clean_elems_append_unrooted)

lemma clean_elems_set:
  "c \<in> set (clean_elems r out xs) \<Longrightarrow> c \<in> set out \<or> c \<in> set xs \<or> c = ''..''"
proof (induction xs arbitrary: out)
  case Nil
  then show ?case by simp
next
  case (Cons x xs)
  consider (pop) "x = ''..''" "out \<noteq> []" "last out \<noteq> ''..''"
    | (drop) "x = ''..''" "\<not> (out \<noteq> [] \<and> last out \<noteq> ''..'')" "r"
    | (keep) "x = ''..''" "\<not> (out \<noteq> [] \<and> last out \<noteq> ''..'')" "\<not> r"
    | (name) "x \<noteq> ''..''"
    by blast
  then show ?case
  proof cases
    case pop
    then have "clean_elems r out (x # xs) = clean_elems r (butlast out) xs" by simp
    with Cons.prems have "c \<in> set (clean_elems r (butlast out) xs)" by simp
    from Cons.IH [OF this] show ?thesis by (auto dest: in_set_butlastD)
  next
    case drop
    then have "clean_elems r out (x # xs) = clean_elems r out xs" by auto
    with Cons.prems have "c \<in> set (clean_elems r out xs)" by simp
    from Cons.IH [OF this] show ?thesis by auto
  next
    case keep
    then have "clean_elems r out (x # xs) = clean_elems r (out @ [''..'']) xs" by auto
    with Cons.prems have "c \<in> set (clean_elems r (out @ [''..'']) xs)" by simp
    from Cons.IH [OF this] show ?thesis by auto
  next
    case name
    then have "clean_elems r out (x # xs) = clean_elems r (out @ [x]) xs" by simp
    with Cons.prems have "c \<in> set (clean_elems r (out @ [x]) xs)" by simp
    from Cons.IH [OF this] show ?thesis by auto
  qed
qed

lemma clean_elems_names_rooted: "''..'' \<notin> set xs \<Longrightarrow> clean_elems True out xs = out @ xs"
  by (induction xs arbitrary: out) auto

lemma clean_elems_names_unrooted: "''..'' \<notin> set xs \<Longrightarrow> clean_elems False out xs = out @ xs"
  by (induction xs arbitrary: out) auto

lemma clean_elems_names: "''..'' \<notin> set xs \<Longrightarrow> clean_elems r out xs = out @ xs"
  by (cases r) (simp_all add: clean_elems_names_rooted clean_elems_names_unrooted)

lemma clean_elems_dotdots:
  "\<not> r \<Longrightarrow> clean_elems r (replicate k ''..'') (replicate j ''..'') = replicate (k + j) ''..''"
proof (induction j arbitrary: k)
  case 0
  then show ?case by simp
next
  case (Suc j)
  have "replicate k ''..'' = [] \<or> last (replicate k ''..'') = ''..''"
    by (cases k) simp_all
  then have "clean_elems r (replicate k ''..'') (''..'' # replicate j ''..'') =
    clean_elems r (replicate k ''..'' @ [''..'']) (replicate j ''..'')"
    using Suc.prems by auto
  also have "replicate k ''..'' @ [''..''] = replicate (Suc k) ''..''"
    by (simp add: replicate_append_same)
  finally show ?case
    using Suc.IH [OF Suc.prems, of "Suc k"] by simp
qed

text \<open>What \<^verbatim>\<open>filepath.Clean\<close> leaves: some \<^verbatim>\<open>..\<close> (none in a rooted path), then names.\<close>

lemma clean_elems_shape:
  assumes "out = replicate k ''..'' @ names" "''..'' \<notin> set names" "r \<longrightarrow> k = 0"
  shows "\<exists>k' names'. clean_elems r out xs = replicate k' ''..'' @ names' \<and>
    ''..'' \<notin> set names' \<and> (r \<longrightarrow> k' = 0)"
  using assms
proof (induction xs arbitrary: out k names)
  case Nil
  then show ?case by auto
next
  case (Cons x xs)
  show ?case
  proof (cases "x = ''..''")
    case False
    have "out @ [x] = replicate k ''..'' @ (names @ [x])" "''..'' \<notin> set (names @ [x])"
      using Cons.prems False by auto
    from Cons.IH [OF this Cons.prems(3)] False show ?thesis by simp
  next
    case True
    show ?thesis
    proof (cases "names = []")
      case False
      have "last out = last names" using False Cons.prems(1) by simp
      moreover have "last names \<noteq> ''..''"
        using last_in_set [OF False] Cons.prems(2) by metis
      ultimately have step: "clean_elems r out (x # xs) = clean_elems r (butlast out) xs"
        using True False Cons.prems(1) by simp
      have "butlast out = replicate k ''..'' @ butlast names"
        using False Cons.prems(1) by (simp add: butlast_append)
      moreover have "''..'' \<notin> set (butlast names)"
        using Cons.prems(2) by (metis in_set_butlastD)
      ultimately show ?thesis
        unfolding step using Cons.prems(3) by (rule Cons.IH)
    next
      case n: True
      show ?thesis
      proof (cases r)
        case True
        with Cons.prems n have "out = []" by simp
        then have step: "clean_elems r out (x # xs) = clean_elems r [] xs"
          using True \<open>x = ''..''\<close> by simp
        show ?thesis
          unfolding step by (rule Cons.IH [of "[]" 0 "[]"]) simp_all
      next
        case False
        have "out = [] \<or> last out = ''..''"
          using Cons.prems(1) n by (cases k) simp_all
        then have step: "clean_elems r out (x # xs) = clean_elems r (out @ [''..'']) xs"
          using False \<open>x = ''..''\<close> by auto
        have "out @ [''..''] = replicate (Suc k) ''..'' @ []"
          using Cons.prems(1) n by (simp add: replicate_append_same)
        then show ?thesis
          unfolding step using False by (intro Cons.IH [of "out @ [''..'']" "Suc k" "[]"]) simp_all
      qed
    qed
  qed
qed

lemma clean_elems_fixed:
  assumes "''..'' \<notin> set names" "r \<longrightarrow> k = 0"
  shows "clean_elems r [] (replicate k ''..'' @ names) = replicate k ''..'' @ names"
proof (cases r)
  case True
  with assms show ?thesis by (simp add: clean_elems_names)
next
  case False
  then have "clean_elems r [] (replicate k ''..'') = replicate k ''..''"
    using clean_elems_dotdots [of r 0 k] by simp
  then show ?thesis
    using assms by (simp add: clean_elems_append clean_elems_names)
qed

lemma clean_elems_idem: "clean_elems r [] (clean_elems r [] xs) = clean_elems r [] xs"
proof -
  obtain k names where "clean_elems r [] xs = replicate k ''..'' @ names"
    "''..'' \<notin> set names" "r \<longrightarrow> k = 0"
    using clean_elems_shape [of "[]" 0 "[]" r xs] by auto
  then show ?thesis by (simp add: clean_elems_fixed)
qed

lemma clean_elems_snoc_name:
  "x \<noteq> ''..'' \<Longrightarrow> clean_elems r [] (xs @ [x]) = clean_elems r [] xs @ [x]"
  by (simp add: clean_elems_append)

lemma split_sep_Join:
  "cs \<noteq> [] \<Longrightarrow> list_all (\<lambda>c. CHR ''/'' \<notin> set c) cs \<Longrightarrow> split_sep (strings_Join cs ''/'') = cs"
proof (induction cs "''/''" rule: strings_Join.induct)
  case 1
  then show ?case by simp
next
  case (2 e)
  then show ?case by (simp add: split_sep_nosep)
next
  case (3 e v va)
  then show ?case
    using split_sep_append_sep [of e "strings_Join (v # va) ''/''"]
    by (simp add: split_sep_nosep)
qed

lemma strings_Join_snoc:
  "strings_Join (cs @ [x]) sep = (if cs = [] then x else strings_Join cs sep @ sep @ x)"
  by (induction cs sep rule: strings_Join.induct) auto

lemma strings_Join_snoc_suffix:
  "strings_Join (cs @ [x]) sep @ sfx = strings_Join (cs @ [x @ sfx]) sep"
  by (simp add: strings_Join_snoc)

lemma strings_Join_Nil_iff: "list_all (\<lambda>c. c \<noteq> []) cs \<Longrightarrow> strings_Join cs sep = [] \<longleftrightarrow> cs = []"
  by (induction cs sep rule: strings_Join.induct) auto

lemma strings_Join_hd:
  "list_all kept_elem cs \<Longrightarrow> cs \<noteq> [] \<Longrightarrow> hd (strings_Join cs ''/'') \<noteq> CHR ''/''"
proof (induction cs "''/''" rule: strings_Join.induct)
  case 1
  then show ?case by simp
next
  case (2 e)
  then show ?case by (cases e) (auto simp: kept_elem_def)
next
  case (3 e v va)
  then show ?case by (cases e) (auto simp: kept_elem_def)
qed

lemma kept_elem_simps:
  "kept_elem c \<Longrightarrow> c \<noteq> []"
  "kept_elem c \<Longrightarrow> CHR ''/'' \<notin> set c"
  "kept_elem c \<Longrightarrow> c \<noteq> ''.''"
  by (simp_all add: kept_elem_def)

lemma list_all_kept:
  assumes "list_all kept_elem cs"
  shows "list_all (\<lambda>c. c \<noteq> []) cs" "list_all (\<lambda>c. CHR ''/'' \<notin> set c) cs"
    "filter (\<lambda>c. c \<noteq> [] \<and> c \<noteq> ''.'') cs = cs" "filter (\<lambda>c. c \<noteq> []) cs = cs"
  using assms by (induction cs) (auto simp: kept_elem_def)

lemma render_not_Nil: "render r cs \<noteq> []"
  by (simp add: render_def Let_def)

lemma rooted_render: "list_all kept_elem cs \<Longrightarrow> rooted (render r cs) = r"
  using strings_Join_hd [of cs] strings_Join_Nil_iff [of cs "''/''"] list_all_kept(1) [of cs]
  by (cases "cs = []") (auto simp: render_def Let_def rooted_def)

lemma split_sep_render:
  assumes "list_all kept_elem cs"
  shows "split_sep (render r cs) =
    (if r then [] # (if cs = [] then [[]] else cs) else if cs = [] then [''.''] else cs)"
proof (cases "cs = []")
  case True
  then show ?thesis by (simp add: render_def)
next
  case False
  then have "strings_Join cs ''/'' \<noteq> []"
    using strings_Join_Nil_iff [of cs "''/''"] list_all_kept(1) [OF assms] by simp
  moreover have "split_sep (strings_Join cs ''/'') = cs"
    using False list_all_kept(2) [OF assms] by (rule split_sep_Join)
  ultimately show ?thesis using False by (simp add: render_def Let_def)
qed

lemma elems_render: "list_all kept_elem cs \<Longrightarrow> elems (render r cs) = cs"
  using list_all_kept(3) [of cs] by (simp add: elems_def split_sep_render)

lemma pcomps_render:
  "list_all kept_elem cs \<Longrightarrow> pcomps (render r cs) = (if cs = [] \<and> \<not> r then [''.''] else cs)"
  using list_all_kept(4) [of cs] by (simp add: pcomps_def split_sep_render)

lemma render_snoc_suffix: "x \<noteq> [] \<Longrightarrow> render r (cs @ [x]) @ sfx = render r (cs @ [x @ sfx])"
  by (simp add: render_def Let_def strings_Join_snoc)

lemma cleaned_kept: "list_all kept_elem (clean_elems r [] (elems p))"
proof -
  have "kept_elem c" if "c \<in> set (clean_elems r [] (elems p))" for c
    using clean_elems_set [OF that] elems_valid [of c p] by (auto simp: kept_elem_def)
  then show ?thesis by (simp add: list_all_iff)
qed

lemma filepath_Clean_not_Nil: "filepath_Clean p \<noteq> []"
  by (simp add: filepath_Clean_def render_not_Nil)

lemma rooted_Clean: "rooted (filepath_Clean p) = rooted p"
  by (simp add: filepath_Clean_def rooted_render cleaned_kept)

lemma elems_Clean: "elems (filepath_Clean p) = clean_elems (rooted p) [] (elems p)"
  by (simp add: filepath_Clean_def elems_render cleaned_kept)

lemma filepath_Clean_idem: "filepath_Clean (filepath_Clean p) = filepath_Clean p"
  unfolding filepath_Clean_def [of "filepath_Clean p"]
  by (simp add: rooted_Clean elems_Clean clean_elems_idem) (simp add: filepath_Clean_def)

lemma valid_name_kept: "valid_name x \<Longrightarrow> kept_elem x"
  by (simp add: valid_name_def kept_elem_def)

text \<open>A name joined to a path, cleaned or not.\<close>

lemma Clean_name:
  assumes "valid_name x" "A \<noteq> []"
  shows "filepath_Clean (A @ CHR ''/'' # x) =
    render (rooted A) (clean_elems (rooted A) [] (elems A) @ [x])"
proof -
  have "x \<noteq> ''..''" using assms(1) by (simp add: valid_name_def)
  then show ?thesis
    using assms
    by (simp add: filepath_Clean_def rooted_append elems_append_sep elems_name
        clean_elems_snoc_name)
qed

lemma Clean_Clean_name:
  assumes "valid_name x"
  shows "filepath_Clean (filepath_Clean A @ CHR ''/'' # x) =
    render (rooted A) (clean_elems (rooted A) [] (elems A) @ [x])"
  using Clean_name [OF assms filepath_Clean_not_Nil, of A]
  by (simp add: rooted_Clean elems_Clean clean_elems_idem)

lemma valid_name_suffix: "valid_name x \<Longrightarrow> valid_name (x @ ''.json'')"
  by (cases x) (auto simp: valid_name_def)

lemma Write_Read_same_path:
  assumes "collection \<noteq> []" "valid_name resource"
  shows "filepath_Join [filepath_Join [D, collection], resource @ ''.json''] =
    filepath_Join [D, collection, resource] @ ''.json''"
proof -
  define A where "A = (if D = [] then collection else D @ CHR ''/'' # collection)"
  have A: "A \<noteq> []" using assms(1) by (simp add: A_def)
  have r: "resource \<noteq> []" using assms(2) by (simp add: valid_name_def)
  have 1: "filepath_Join [D, collection] = filepath_Clean A"
    using assms(1) by (simp add: filepath_Join.simps A_def)
  have 2: "filepath_Join [D, collection, resource] = filepath_Clean (A @ CHR ''/'' # resource)"
    using assms(1) by (simp add: filepath_Join.simps A_def)
  have "filepath_Join [filepath_Clean A, resource @ ''.json''] =
    filepath_Clean (filepath_Clean A @ CHR ''/'' # resource @ ''.json'')"
    by (simp add: filepath_Join.simps filepath_Clean_not_Nil)
  also have "\<dots> = render (rooted A) (clean_elems (rooted A) [] (elems A) @ [resource @ ''.json''])"
    using valid_name_suffix [OF assms(2)] by (rule Clean_Clean_name)
  also have "\<dots> = render (rooted A) (clean_elems (rooted A) [] (elems A) @ [resource]) @ ''.json''"
    using r by (simp add: render_snoc_suffix)
  also have "\<dots> = filepath_Clean (A @ CHR ''/'' # resource) @ ''.json''"
    using Clean_name [OF assms(2) A] by simp
  finally show ?thesis by (simp add: 1 2)
qed

lemma k_readfile_NotExist_iff: "k_readfile w p = Inl NotExist \<longleftrightarrow> k_stat w p = Inl NotExist"
  by (auto simp: k_readfile_def k_stat_def split: sum.splits option.splits node.splits)

lemma prod3_eq: "x = (fst x, fst (snd x), snd (snd x))"
  by simp

lemma foldl_step_name: "valid_name x \<Longrightarrow> step cur x = cur @ [x]"
  by (simp add: step_def valid_name_def)

lemma resolve_render_snoc:
  assumes "list_all kept_elem ns" "valid_name x"
  shows "resolve w (render r (ns @ [x])) = foldl step (if r then [] else cwd w) ns @ [x]"
proof -
  have k: "list_all kept_elem (ns @ [x])"
    using assms by (simp add: valid_name_kept)
  show ?thesis
    using assms(2)
    by (simp add: resolve_def start_def rooted_render [OF k] pcomps_render [OF k] foldl_step_name)
qed

lemma json_name: "CHR ''/'' \<notin> set s \<Longrightarrow> valid_name (s @ ''.json'')"
  by (cases s) (auto simp: valid_name_def)

lemma json_tmp_name: "CHR ''/'' \<notin> set s \<Longrightarrow> valid_name (s @ ''.json'' @ ''.tmp'')"
  by (cases s) (auto simp: valid_name_def)

text \<open>
  The final path of \<^verbatim>\<open>Write\<close> and its temporary file are entries of one directory,
  named by the last element of the resource name.
\<close>

lemma final_path_shape:
  assumes "dirp \<noteq> []"
  shows "\<exists>base.
    resolve w (filepath_Join [dirp, resource @ ''.json'']) =
      base @ [last (split_sep resource) @ ''.json''] \<and>
    resolve w (filepath_Join [dirp, resource @ ''.json''] @ ''.tmp'') =
      base @ [last (split_sep resource) @ ''.json'' @ ''.tmp'']"
proof -
  define fnl where "fnl = filepath_Join [dirp, resource @ ''.json'']"
  define s where "s = last (split_sep resource)"
  define E where "E = elems dirp @ filter (\<lambda>c. c \<noteq> [] \<and> c \<noteq> ''.'') (butlast (split_sep resource))"
  define r where "r = rooted dirp"
  define N where "N = clean_elems r [] E"
  have slash: "CHR ''/'' \<notin> set s"
    unfolding s_def using split_sep_nosep_elems [of "last (split_sep resource)" resource]
    by (simp add: split_sep_not_Nil)
  have x: "valid_name (s @ ''.json'')" and y: "valid_name (s @ ''.json'' @ ''.tmp'')"
    using slash by (rule json_name, rule json_tmp_name)
  have x': "s @ ''.json'' \<noteq> []" "s @ ''.json'' \<noteq> ''.''" "s @ ''.json'' \<noteq> ''..''"
    using x by (auto simp: valid_name_def)
  have "elems (resource @ ''.json'') =
    filter (\<lambda>c. c \<noteq> [] \<and> c \<noteq> ''.'') (butlast (split_sep resource)) @ [s @ ''.json'']"
    using x' by (simp add: elems_def split_sep_suffix s_def)
  then have e: "elems (dirp @ CHR ''/'' # resource @ ''.json'') = E @ [s @ ''.json'']"
    by (simp add: elems_append_sep E_def)
  have kept: "list_all kept_elem (clean_elems r [] (E @ [s @ ''.json'']))"
    using cleaned_kept [of r "dirp @ CHR ''/'' # resource @ ''.json''"] e by simp
  have c: "clean_elems r [] (E @ [s @ ''.json'']) = N @ [s @ ''.json'']"
    using x'(3) by (simp add: clean_elems_snoc_name N_def)
  have N: "list_all kept_elem N" using kept c by simp
  have fnl: "fnl = render r (N @ [s @ ''.json''])"
    using assms(1) e c
    by (simp add: fnl_def filepath_Join.simps filepath_Clean_def rooted_append r_def)
  then have tmp: "fnl @ ''.tmp'' = render r (N @ [s @ ''.json'' @ ''.tmp''])"
    using render_snoc_suffix [OF x'(1), of r N "''.tmp''"] by simp
  have a: "resolve w fnl = foldl step (if r then [] else cwd w) N @ [s @ ''.json'']"
    unfolding fnl by (rule resolve_render_snoc [OF N x])
  have b: "resolve w (fnl @ ''.tmp'') =
    foldl step (if r then [] else cwd w) N @ [s @ ''.json'' @ ''.tmp'']"
    unfolding tmp by (rule resolve_render_snoc [OF N y])
  show ?thesis
    using a b unfolding fnl_def s_def by blast
qed

lemma filepath_Join_not_Nil: "c \<noteq> [] \<Longrightarrow> filepath_Join [D, c] \<noteq> []"
  by (simp add: filepath_Join.simps filepath_Clean_not_Nil)

section \<open>\<^verbatim>\<open>Delete\<close>: which path is removed\<close>

lemma map_of_filter_beneath:
  "map_of (filter (\<lambda>(q, n). \<not> beneath l q) t) q = (if beneath l q then None else map_of t q)"
  by (induction t) auto

lemma last_two:
  assumes "2 \<le> length p"
  shows "p = butlast (butlast p) @ [p ! (length p - 2), last p]"
proof (cases p rule: rev_cases)
  case Nil
  with assms show ?thesis by simp
next
  case (snoc ys b)
  show ?thesis
  proof (cases ys rule: rev_cases)
    case Nil
    with snoc assms show ?thesis by simp
  next
    case (snoc xs a)
    with \<open>p = ys @ [b]\<close> show ?thesis by (simp add: nth_append butlast_append)
  qed
qed

lemma endsWithDot_last: "endsWithDot p \<Longrightarrow> pcomps p \<noteq> [] \<and> last (pcomps p) = ''.''"
proof -
  assume e: "endsWithDot p"
  show ?thesis
  proof (cases "p = ''.''")
    case True
    then show ?thesis by (simp add: pcomps_def)
  next
    case False
    with e have "2 \<le> length p" "last p = CHR ''.''" "p ! (length p - 2) = CHR ''/''"
      by (auto simp: endsWithDot_def)
    with last_two [of p] have "p = butlast (butlast p) @ CHR ''/'' # ''.''" by simp
    then have "split_sep p = split_sep (butlast (butlast p)) @ [''.'']"
      using split_sep_append_sep [of "butlast (butlast p)" "''.''"] by simp
    then show ?thesis by (simp add: pcomps_def)
  qed
qed

lemma names_entry_resolve:
  assumes "names_entry p"
  shows "p \<noteq> []" "\<not> endsWithDot p" "last (pcomps p) \<noteq> ''..''"
    "resolve w p = foldl step (start w p) (butlast (pcomps p)) @ [last (pcomps p)]"
proof -
  from assms have ne: "pcomps p \<noteq> []" and v: "valid_name (last (pcomps p))"
    by (simp_all add: names_entry_def)
  from ne show "p \<noteq> []" by (auto simp: pcomps_def)
  from v endsWithDot_last [of p] show "\<not> endsWithDot p" by (auto simp: valid_name_def)
  from v show "last (pcomps p) \<noteq> ''..''" by (simp add: valid_name_def)
  have "pcomps p = butlast (pcomps p) @ [last (pcomps p)]" using ne by simp
  then have "resolve w p = foldl step (start w p) (butlast (pcomps p) @ [last (pcomps p)])"
    by (simp add: resolve_def)
  then show "resolve w p = foldl step (start w p) (butlast (pcomps p)) @ [last (pcomps p)]"
    using v by (simp add: foldl_step_name)
qed

lemma k_removeall_entry:
  assumes "names_entry p" "lookup_path w p = Inr l"
  shows "k_removeall w p = (None, filter (\<lambda>(q, n). \<not> beneath l q) (tree w))"
proof -
  have "l = resolve w p" using assms(2) by (rule lookup_path_resolve)
  then have "l \<noteq> []" using names_entry_resolve(4) [OF assms(1), of w] by simp
  then show ?thesis
    using names_entry_resolve(1-3) [OF assms(1)] assms(2) by (simp add: k_removeall_def)
qed

lemma names_entry_json: "names_entry (p @ ''.json'')"
proof -
  have "CHR ''/'' \<notin> set (last (split_sep p))"
    using split_sep_nosep_elems [of "last (split_sep p)" p] by (simp add: split_sep_not_Nil)
  then have "valid_name (last (split_sep p) @ ''.json'')" by (rule json_name)
  then show ?thesis
    by (simp add: names_entry_def pcomps_suffix)
qed

lemma k_stat_lookup:
  "k_stat w p = Inr m \<Longrightarrow> lookup_path w p = Inr (resolve w p)"
  by (auto simp: k_stat_def split: sum.splits dest: lookup_path_resolve)

lemma os_RemoveAll_logged [simp]:
  "k_removeall (logged c w) = k_removeall w"
  by (intro same_files) simp_all

lemma stat_world:
  "tree (snd (stat p w)) = tree w" "cwd (snd (stat p w)) = cwd w"
  "faults (snd (stat p w)) = faults w"
  by (auto simp: stat_def os_Stat_def split: sum.splits)

lemma k_removeall_stat [simp]: "k_removeall (snd (stat p w)) = k_removeall w"
  by (intro same_files) (simp_all add: stat_world)

lemma Delete_result:
  assumes "faults w = []"
  shows "fst (Delete collection resource d w) =
      (case fst (stat (filepath_Join [driver.dir d, filepath_Join [collection, resource]]) w) of
         Inl e \<Rightarrow> Some (ErrorString (''unable to find file or directory name '' @
           filepath_Join [collection, resource] @ [newline]))
       | Inr ModeDir \<Rightarrow>
           fst (k_removeall w (filepath_Join [driver.dir d, filepath_Join [collection, resource]]))
       | Inr ModeRegular \<Rightarrow>
           fst (k_removeall w
             (filepath_Join [driver.dir d, filepath_Join [collection, resource]] @ ''.json'')))"
    and "tree (snd (snd (Delete collection resource d w))) =
      (case fst (stat (filepath_Join [driver.dir d, filepath_Join [collection, resource]]) w) of
         Inl e \<Rightarrow> tree w
       | Inr ModeDir \<Rightarrow>
           snd (k_removeall w (filepath_Join [driver.dir d, filepath_Join [collection, resource]]))
       | Inr ModeRegular \<Rightarrow>
           snd (k_removeall w
             (filepath_Join [driver.dir d, filepath_Join [collection, resource]] @ ''.json'')))"
    and "cwd (snd (snd (Delete collection resource d w))) = cwd w"
proof -
  obtain m d1 w1 where g: "getOrCreateMutex collection d w = (m, d1, w1)"
    by (cases "getOrCreateMutex collection d w") auto
  have f: "driver.dir d1 = driver.dir d" "tree w1 = tree w" "cwd w1 = cwd w" "faults w1 = []"
    using getOrCreateMutex_frame [of collection d w] g assms by simp_all
  define p where "p = filepath_Join [driver.dir d, filepath_Join [collection, resource]]"
  have s: "fst (stat p w1) = fst (stat p w)"
    by (simp only: fst_stat [OF f(4)] fst_stat [OF assms] same_files(4) [OF f(2,3)])
  have k: "k_removeall w1 = k_removeall w"
    using f by (intro same_files) simp_all
  obtain r w2 where st: "stat p w1 = (r, w2)" by (cases "stat p w1") auto
  have w2: "tree w2 = tree w" "cwd w2 = cwd w" "k_removeall w2 = k_removeall w"
    using stat_world [of p w1] k_removeall_stat [of p w1] st f k by simp_all
  have D: "Delete collection resource d w =
    (case r of
       Inl err \<Rightarrow> (Some (ErrorString (''unable to find file or directory name '' @
           filepath_Join [collection, resource] @ [newline])), d1, w2)
     | Inr ModeDir \<Rightarrow> (case os_RemoveAll p w2 of (e, w3) \<Rightarrow> (e, d1, w3))
     | Inr ModeRegular \<Rightarrow> (case os_RemoveAll (p @ ''.json'') w2 of (e, w3) \<Rightarrow> (e, d1, w3)))"
    using g f st by (simp add: Delete_def Let_def p_def split: sum.splits file_mode.splits)
  have r: "r = fst (stat p w)" using st s by simp
  show "fst (Delete collection resource d w) =
      (case fst (stat (filepath_Join [driver.dir d, filepath_Join [collection, resource]]) w) of
         Inl e \<Rightarrow> Some (ErrorString (''unable to find file or directory name '' @
           filepath_Join [collection, resource] @ [newline]))
       | Inr ModeDir \<Rightarrow>
           fst (k_removeall w (filepath_Join [driver.dir d, filepath_Join [collection, resource]]))
       | Inr ModeRegular \<Rightarrow>
           fst (k_removeall w
             (filepath_Join [driver.dir d, filepath_Join [collection, resource]] @ ''.json'')))"
    unfolding D p_def [symmetric] r [symmetric]
    by (simp add: os_RemoveAll_def w2 split: sum.splits file_mode.splits prod.splits)
  show "tree (snd (snd (Delete collection resource d w))) =
      (case fst (stat (filepath_Join [driver.dir d, filepath_Join [collection, resource]]) w) of
         Inl e \<Rightarrow> tree w
       | Inr ModeDir \<Rightarrow>
           snd (k_removeall w (filepath_Join [driver.dir d, filepath_Join [collection, resource]]))
       | Inr ModeRegular \<Rightarrow>
           snd (k_removeall w
             (filepath_Join [driver.dir d, filepath_Join [collection, resource]] @ ''.json'')))"
    unfolding D p_def [symmetric] r [symmetric]
    by (simp add: os_RemoveAll_def w2 split: sum.splits file_mode.splits prod.splits)
  show "cwd (snd (snd (Delete collection resource d w))) = cwd w"
    unfolding D
    by (simp add: os_RemoveAll_def w2 split: sum.splits file_mode.splits prod.splits)
qed

lemma removeall_entry_effect:
  assumes "names_entry p" "k_stat w p = Inr m"
  shows "fst (k_removeall w p) = None"
    and "map_of (snd (k_removeall w p)) q = (if beneath (resolve w p) q then None else node_at w q)"
  using k_removeall_entry [OF assms(1) k_stat_lookup [OF assms(2)]]
  by (simp_all add: map_of_filter_beneath node_at_def)

lemma elems_Nil [simp]: "elems [] = []"
  by (simp add: elems_def)

lemma Join_empty:
  "filepath_Join [[], []] = []"
  "filepath_Clean D = D \<Longrightarrow> filepath_Join [D, []] = D"
proof -
  show "filepath_Join [[], []] = []" by (simp add: filepath_Join.simps)
  assume c: "filepath_Clean D = D"
  then have ne: "D \<noteq> []" using filepath_Clean_not_Nil [of D] by auto
  have "filepath_Clean (D @ ''/'') = filepath_Clean D"
    using ne elems_append_sep [of D "[]"] by (simp add: filepath_Clean_def rooted_append)
  then show "filepath_Join [D, []] = D"
    using ne c by (simp add: filepath_Join.simps)
qed

lemma node_at_tree: "node_at w q = map_of (tree w) q"
  by (simp add: node_at_def)

section \<open>\<^verbatim>\<open>ReadAll\<close>: the entries of the collection directory\<close>

lemma snoc_butlast_last: "q \<noteq> [] \<and> butlast q = l \<and> last q = x \<longleftrightarrow> q = l @ [x]"
  by (auto simp: snoc_eq_iff_butlast)

lemma entries_set: "x \<in> set (entries t l) \<longleftrightarrow> map_of t (l @ [x]) \<noteq> None"
proof -
  have "x \<in> set (entries t l) \<longleftrightarrow> (\<exists>q n. (q, n) \<in> set t \<and> q \<noteq> [] \<and> butlast q = l \<and> last q = x)"
    by (auto simp: entries_def image_iff)
  also have "\<dots> \<longleftrightarrow> (\<exists>n. (l @ [x], n) \<in> set t)"
    using snoc_butlast_last [of _ l x] by metis
  also have "\<dots> \<longleftrightarrow> map_of t (l @ [x]) \<noteq> None"
    by (force simp: map_of_eq_None_iff image_iff)
  finally show ?thesis .
qed

lemma entries_valid:
  assumes "wf_names w" "x \<in> set (entries (tree w) l)"
  shows "valid_name x"
proof -
  from assms(2) obtain n where "(l @ [x], n) \<in> set (tree w)"
    by (auto simp: entries_set dest: map_of_SomeD)
  with assms(1) have "list_all valid_name (l @ [x])"
    by (auto simp: wf_names_def list_all_iff)
  then show ?thesis by simp
qed

lemma lookup_clean_child:
  assumes "k_stat w (filepath_Clean A) = Inr ModeDir" "valid_name n"
  shows "lookup_path w (filepath_Clean (filepath_Clean A @ CHR ''/'' # n)) =
    Inr (resolve w (filepath_Clean A) @ [n])"
proof -
  define r where "r = rooted A"
  define N where "N = clean_elems r [] (elems A)"
  define st where "st = (if r then [] else cwd w)"
  define l0 where "l0 = resolve w (filepath_Clean A)"
  have N: "list_all kept_elem N" unfolding N_def by (rule cleaned_kept)
  then have Nn: "list_all kept_elem (N @ [n])" using assms(2) by (simp add: valid_name_kept)
  have cA: "filepath_Clean A = render r N" by (simp add: filepath_Clean_def r_def N_def)
  have l0: "lookup_path w (render r N) = Inr l0" and d0: "map_of (tree w) l0 = Some Dir"
    using assms(1) k_stat_lookup [OF assms(1)]
    by (auto simp: cA l0_def k_stat_def node_at_def split: option.splits node.splits)
  have "namei (tree w) st (if N = [] \<and> \<not> r then [''.''] else N) = Inr l0"
    using l0 by (simp add: lookup_path_def render_not_Nil start_def rooted_render [OF N]
      pcomps_render [OF N] st_def)
  then have walk: "namei (tree w) st N = Inr l0"
    by (auto simp: step_def split: if_splits option.splits node.splits)
  have "lookup_path w (render r (N @ [n])) = namei (tree w) st (N @ [n])"
    by (simp add: lookup_path_def render_not_Nil start_def rooted_render [OF Nn]
      pcomps_render [OF Nn] st_def)
  also have "\<dots> = Inr (l0 @ [n])"
    using walk d0 assms(2) by (simp add: namei_append foldl_step_name)
  finally show ?thesis
    using Clean_Clean_name [OF assms(2), of A]
    by (simp add: r_def N_def l0_def)
qed

lemma Join_collection:
  assumes "collection \<noteq> []"
  shows "filepath_Join [D, collection] =
    filepath_Clean (if D = [] then collection else D @ CHR ''/'' # collection)"
  using assms by (simp add: filepath_Join.simps)

lemma Join_Clean_file:
  "filepath_Join [filepath_Clean A, n] = filepath_Clean (filepath_Clean A @ CHR ''/'' # n)"
  by (simp add: filepath_Join.simps filepath_Clean_not_Nil)

lemma k_readfile_entry:
  assumes "k_stat w (filepath_Clean A) = Inr ModeDir" "valid_name n"
    and "node_at w (resolve w (filepath_Clean A) @ [n]) = Some (File b)"
  shows "k_readfile w (filepath_Join [filepath_Clean A, n]) = Inr b"
  using lookup_clean_child [OF assms(1,2)] assms(3)
  by (simp add: Join_Clean_file k_readfile_def)

lemma is_file_iff: "is_file w l \<longleftrightarrow> (\<exists>b. node_at w l = Some (File b))"
  by (auto simp: is_file_def split: option.splits node.splits)

lemma k_readfile_entry_dir:
  assumes "k_stat w (filepath_Clean A) = Inr ModeDir" "valid_name n"
    and "node_at w (resolve w (filepath_Clean A) @ [n]) = Some Dir"
  shows "k_readfile w (filepath_Join [filepath_Clean A, n]) = Inl IOError"
  using lookup_clean_child [OF assms(1,2)] assms(3)
  by (simp add: Join_Clean_file k_readfile_def)

text \<open>
  The loop over entries that exist: it returns the contents of all of them when all are
  regular files, and the error of the first read that fails otherwise.
\<close>

lemma read_files_all:
  assumes "k_stat w (filepath_Clean A) = Inr ModeDir"
    and "list_all valid_name names"
    and "list_all (\<lambda>n. node_at w (resolve w (filepath_Clean A) @ [n]) \<noteq> None) names"
    and "tree w' = tree w" "cwd w' = cwd w" "faults w' = []"
  shows "fst (read_files (filepath_Clean A) names records w') =
    (if list_all (\<lambda>n. is_file w (resolve w (filepath_Clean A) @ [n])) names
     then Inr (records @ map (\<lambda>n. file_bytes w (resolve w (filepath_Clean A) @ [n])) names)
     else Inl IOError)"
  using assms(2-)
proof (induction names arbitrary: records w')
  case Nil
  then show ?case by simp
next
  case (Cons n names)
  have v: "valid_name n" using Cons.prems by simp
  have k: "k_readfile w' = k_readfile w"
    using Cons.prems(3,4) by (rule same_files)
  from Cons.prems obtain nd where nd: "node_at w (resolve w (filepath_Clean A) @ [n]) = Some nd"
    by auto
  show ?case
  proof (cases nd)
    case (File b)
    have r: "k_readfile w' (filepath_Join [filepath_Clean A, n]) = Inr b"
      using k_readfile_entry [OF assms(1) v nd [unfolded File]] k by simp
    have fb: "file_bytes w (resolve w (filepath_Clean A) @ [n]) = b"
      "is_file w (resolve w (filepath_Clean A) @ [n])"
      using nd File by (simp_all add: file_bytes_def is_file_def)
    have "fst (read_files (filepath_Clean A) names (records @ [b])
        (logged (SysReadFile (filepath_Join [filepath_Clean A, n])) w')) =
      (if list_all (\<lambda>n. is_file w (resolve w (filepath_Clean A) @ [n])) names
       then Inr ((records @ [b]) @
         map (\<lambda>n. file_bytes w (resolve w (filepath_Clean A) @ [n])) names)
       else Inl IOError)"
      using Cons.prems by (intro Cons.IH) simp_all
    then show ?thesis
      using Cons.prems(5) by (simp add: os_ReadFile_def r fb)
  next
    case Dir
    have r: "k_readfile w' (filepath_Join [filepath_Clean A, n]) = Inl IOError"
      using k_readfile_entry_dir [OF assms(1) v nd [unfolded Dir]] k by simp
    have "\<not> is_file w (resolve w (filepath_Clean A) @ [n])"
      using nd Dir by (simp add: is_file_def)
    then show ?thesis
      using Cons.prems(5) by (simp add: os_ReadFile_def r)
  qed
qed

lemma ReadAll_result:
  assumes "collection \<noteq> []"
    and "k_stat w (filepath_Join [driver.dir d, collection]) = Inr ModeDir"
    and "wf_names w"
    and "faults w = []"
  shows "fst (ReadAll collection d w) =
    (if list_all (\<lambda>n. is_file w (resolve w (filepath_Join [driver.dir d, collection]) @ [n]))
        (entries (tree w) (resolve w (filepath_Join [driver.dir d, collection])))
     then Inr (map (\<lambda>n. file_bytes w (resolve w (filepath_Join [driver.dir d, collection]) @ [n]))
        (entries (tree w) (resolve w (filepath_Join [driver.dir d, collection]))))
     else Inl IOError)"
proof -
  define A where "A = (if driver.dir d = [] then collection else driver.dir d @ CHR ''/'' # collection)"
  have J: "filepath_Join [driver.dir d, collection] = filepath_Clean A"
    using assms(1) by (simp add: Join_collection A_def)
  define l where "l = resolve w (filepath_Clean A)"
  define names where "names = entries (tree w) l"
  note st = assms(2) [unfolded J]
  have s: "stat (filepath_Clean A) w = (Inr ModeDir, logged (SysStat (filepath_Clean A)) w)"
    using st assms(4) by (simp add: stat_def os_Stat_def)
  have "lookup_path w (filepath_Clean A) = Inr l" "node_at w l = Some Dir"
    using st k_stat_lookup [OF st]
    by (auto simp: l_def k_stat_def split: option.splits node.splits)
  then have rd: "k_readdir w (filepath_Clean A) = Inr names"
    by (simp add: k_readdir_def names_def)
  have v: "list_all valid_name names"
    using entries_valid [OF assms(3)] by (simp add: names_def list_all_iff)
  have f: "list_all (\<lambda>n. node_at w (resolve w (filepath_Clean A) @ [n]) \<noteq> None) names"
    by (simp add: names_def l_def list_all_iff entries_set node_at_def)
  have "fst (read_files (filepath_Clean A) names []
      (logged (SysReadDir (filepath_Clean A)) (logged (SysStat (filepath_Clean A)) w))) =
    (if list_all (\<lambda>n. is_file w (resolve w (filepath_Clean A) @ [n])) names
     then Inr ([] @ map (\<lambda>n. file_bytes w (resolve w (filepath_Clean A) @ [n])) names)
     else Inl IOError)"
    using st v f by (rule read_files_all) (simp_all add: assms(4))
  then show ?thesis
    using assms(1,4) by (simp add: ReadAll_def Let_def J s os_ReadDir_def rd names_def l_def)
qed

section \<open>The claims\<close>

text \<open>
  C7. The lock registry. A second call of \<^verbatim>\<open>getOrCreateMutex\<close> with the same name
  returns the same mutex object and changes nothing; a mutex object is allocated only for
  a name that has none; and the registry after \<^verbatim>\<open>getOrCreateMutex\<close>, \<^verbatim>\<open>Write\<close>
  or \<^verbatim>\<open>Delete\<close> holds every entry it held before, with the same mutex object
  (\<^verbatim>\<open>Read\<close> and \<^verbatim>\<open>ReadAll\<close> do not touch the driver). So a name has at most one
  lock for the lifetime of the store, and no entry is removed.
\<close>

theorem lock_registry:
  "(case getOrCreateMutex c d w of (m, d1, w1) \<Rightarrow>
      getOrCreateMutex c d1 w1 = (m, d1, w1) \<and>
      mutexes d1 c = Some m \<and>
      heap_mutexes w1 = heap_mutexes w + (if mutexes d c = None then 1 else 0)) \<and>
   mutexes d \<subseteq>\<^sub>m mutexes (fst (snd (getOrCreateMutex c d w))) \<and>
   mutexes d \<subseteq>\<^sub>m mutexes (fst (snd (Write cdc c r v d w))) \<and>
   mutexes d \<subseteq>\<^sub>m mutexes (fst (snd (Delete c r d w)))"
proof -
  obtain m d1 w1 where g: "getOrCreateMutex c d w = (m, d1, w1)"
    by (cases "getOrCreateMutex c d w") auto
  have keep: "mutexes d \<subseteq>\<^sub>m mutexes d1"
    using g by (rule getOrCreateMutex_keeps)
  have "mutexes d1 c = Some m"
    using g by (auto simp: getOrCreateMutex_def Let_def split: option.splits)
  moreover have "heap_mutexes w1 = heap_mutexes w + (if mutexes d c = None then 1 else 0)"
    using g by (auto simp: getOrCreateMutex_def Let_def split: option.splits)
  moreover have "mutexes d \<subseteq>\<^sub>m mutexes (fst (snd (Write cdc c r v d w)))"
    using Write_driver [of cdc c r v d w] keep g by auto
  moreover have "mutexes d \<subseteq>\<^sub>m mutexes (fst (snd (Delete c r d w)))"
    using keep g by (simp add: Delete_driver)
  ultimately show ?thesis
    using g keep getOrCreateMutex_again [OF g] by simp
qed

text \<open>
  C2, as the program has it. \<^verbatim>\<open>Write\<close>, \<^verbatim>\<open>Read\<close> and \<^verbatim>\<open>ReadAll\<close> reject an
  empty collection name, and \<^verbatim>\<open>Write\<close> and \<^verbatim>\<open>Read\<close> an empty resource name, with
  the error made by \<^verbatim>\<open>fmt.Errorf\<close>; the driver and the world are returned as they
  were, so no system call was made and the answer does not depend on the file system.
  \<^verbatim>\<open>Delete\<close> has no such check.
\<close>

theorem empty_names_rejected:
  "Write cdc [] resource v d w =
     (Some (ErrorString ''Missing collection - no place to save record!''), d, w) \<and>
   Write cdc (x # xs) [] v d w =
     (Some (ErrorString ''Missing resource - unable to save record (no name)!''), d, w) \<and>
   Read cdc [] resource out d w =
     (Inl (ErrorString ''Missing collection - unable to read record!''), w) \<and>
   Read cdc (x # xs) [] out d w =
     (Inl (ErrorString ''Missing resource - unable to read record (no name)!''), w) \<and>
   ReadAll [] d w = (Inl (ErrorString ''Missing collection - unable to read''), w)"
  by (simp add: Write_def Read_def ReadAll_def)

text \<open>
  C2 as stated fails for \<^verbatim>\<open>Delete\<close>: in the store that holds the collection
  \<^verbatim>\<open>c\<close>, \<^verbatim>\<open>Delete("c", "")\<close> returns no error, calls the file system and removes
  the collection.
\<close>

theorem Delete_accepts_empty_resource:
  "fst (Delete ''c'' [] d_x w_x) = None \<and>
   syslog (snd (snd (Delete ''c'' [] d_x w_x))) = syslog w_x @ [SysStat ''db/c'', SysRemoveAll ''db/c''] \<and>
   node_at w_x [''home'', ''db'', ''c'', ''x.json''] = Some (File (''true'' @ [newline])) \<and>
   node_at (snd (snd (Delete ''c'' [] d_x w_x))) [''home'', ''db'', ''c'', ''x.json''] = None \<and>
   node_at (snd (snd (Delete ''c'' [] d_x w_x))) [''home'', ''db'', ''c''] = None"
  by code_simp

text \<open>
  C6. \<^verbatim>\<open>ReadAll\<close> drops the error of \<^verbatim>\<open>os.ReadDir\<close>. The store holds the
  collection directory \<^verbatim>\<open>db/c\<close> with the record \<^verbatim>\<open>x.json\<close>. When the listing of
  \<^verbatim>\<open>db/c\<close> fails, \<^verbatim>\<open>ReadAll("c")\<close> returns an empty sequence and no error; when
  the read of \<^verbatim>\<open>db/c/x.json\<close> fails, it returns that error. The dropped error also
  hides a missing directory: \<^verbatim>\<open>ReadAll("c/x")\<close> passes \<^verbatim>\<open>stat\<close> through the
  fallback to \<^verbatim>\<open>db/c/x.json\<close>, fails to list \<^verbatim>\<open>db/c/x\<close>, and returns an empty
  sequence and no error.
\<close>

theorem ReadAll_drops_ReadDir_error:
  "k_stat w_nolist ''db/c'' = Inr ModeDir \<and>
   k_readfile w_nolist ''db/c/x.json'' = Inr (''true'' @ [newline]) \<and>
   fst (os_ReadDir ''db/c'' w_nolist) = Inl IOError \<and>
   fst (ReadAll ''c'' d_x w_nolist) = Inr [] \<and>
   syslog (snd (ReadAll ''c'' d_x w_nolist)) =
     syslog w_nolist @ [SysStat ''db/c'', SysReadDir ''db/c''] \<and>
   fst (ReadAll ''c'' d_x w_noread) = Inl IOError \<and>
   fst (ReadAll ''c'' d_x w_x) = Inr [''true'' @ [newline]] \<and>
   k_readdir w_x ''db/c/x'' = Inl NotExist \<and>
   fst (ReadAll ''c/x'' d_x w_x) = Inr [] \<and>
   syslog (snd (ReadAll ''c/x'' d_x w_x)) =
     syslog w_x @ [SysStat ''db/c/x'', SysStat ''db/c/x.json'', SysReadDir ''db/c/x'']"
  by code_simp

text \<open>
  C1, as the program has it. For every collection name and every resource name that is a
  single name (not empty, without \<^verbatim>\<open>/\<close>, neither \<^verbatim>\<open>.\<close> nor \<^verbatim>\<open>..\<close>) and every
  value that the serializer writes and reads back: when \<^verbatim>\<open>Write(collection, resource, v)\<close>
  succeeds, \<^verbatim>\<open>Read(collection, resource, &out)\<close> in the state it leaves succeeds and
  gives \<^verbatim>\<open>v\<close>, provided the environment makes no reading call fail.
\<close>

theorem Write_then_Read:
  assumes "valid_name resource"
    and "marshal cdc v = Some b"
    and "unmarshal cdc (b @ [newline]) out = Some v"
    and "Write cdc collection resource v d w = (None, d', w')"
    and "faults w = []"
  shows "fst (Read cdc collection resource out d' w') = Inr v"
proof -
  have ne: "collection \<noteq> []" "resource \<noteq> []"
    using assms(4) by (auto simp: Write_def split: if_splits)
  from Write_effect [OF assms(4)] assms(2,5) have
    d: "driver.dir d' = driver.dir d" and
    f: "faults w' = []" and
    r: "k_readfile w'
      (filepath_Join [filepath_Join [driver.dir d, collection], resource @ ''.json'']) =
      Inr (b @ [newline])"
    by auto
  have "filepath_Join [driver.dir d', collection, resource] @ ''.json'' =
    filepath_Join [filepath_Join [driver.dir d, collection], resource @ ''.json'']"
    using Write_Read_same_path [OF ne(1) assms(1), of "driver.dir d"] d by simp
  then show ?thesis
    using r assms(3) by (simp add: Read_result [OF ne f])
qed

theorem Write_then_Read_witness:
  "valid_name ''x'' \<and>
   marshal bool_codec True = Some ''true'' \<and>
   unmarshal bool_codec (''true'' @ [newline]) False = Some True \<and>
   Write bool_codec ''c'' ''x'' True d_db w_db = (None, d_x, w_x) \<and>
   faults w_db = [] \<and>
   fst (Read bool_codec ''c'' ''x'' False d_x w_x) = Inr True"
proof -
  have 1: "valid_name ''x''" by (simp add: valid_name_def)
  have 2: "marshal bool_codec True = Some ''true''" by (simp add: bool_codec_def)
  have 3: "unmarshal bool_codec (''true'' @ [newline]) False = Some True"
    by (simp add: bool_codec_def json_trim_def json_space_def newline_def)
  have "fst (Write bool_codec ''c'' ''x'' True d_db w_db) = None" by code_simp
  then have 4: "Write bool_codec ''c'' ''x'' True d_db w_db = (None, d_x, w_x)"
    using prod3_eq [of "Write bool_codec ''c'' ''x'' True d_db w_db"]
    by (simp add: d_x_def w_x_def)
  have 5: "faults w_db = []" by code_simp
  from Write_then_Read [OF 1 2 3 4 5] 1 2 3 4 5 show ?thesis by simp
qed

text \<open>
  C1 as stated fails. In the store \<^verbatim>\<open>db\<close>, \<^verbatim>\<open>Write("c", ".", true)\<close> succeeds: it
  writes \<^verbatim>\<open>db/c/..json\<close>. \<^verbatim>\<open>Read("c", ".", &out)\<close> then looks for
  \<^verbatim>\<open>db/c.json\<close> and fails. And \<^verbatim>\<open>Write\<close> itself can fail for plain names: in the
  store where \<^verbatim>\<open>db/c/x.json\<close> is a directory, \<^verbatim>\<open>Write("c", "x", true)\<close> cannot
  rename its temporary file onto it.
\<close>

theorem Write_then_Read_fails:
  "fst (Write bool_codec ''c'' ''.'' True d_db w_db) = None \<and>
   fst (Read bool_codec ''c'' ''.'' False d_dot w_dot) = Inl NotExist \<and>
   k_readfile w_dot ''db/c/..json'' = Inr (''true'' @ [newline]) \<and>
   k_stat w_y ''db/c/x.json'' = Inr ModeDir \<and>
   fst (Write bool_codec ''c'' ''x'' True d_y w_y) = Some IOError"
  by code_simp

text \<open>
  C3. Every successful \<^verbatim>\<open>Write\<close> makes exactly three calls after its checks:
  \<^verbatim>\<open>MkdirAll\<close> of the collection directory, \<^verbatim>\<open>WriteFile\<close> of the serialized value
  followed by one newline to the final path with \<^verbatim>\<open>.tmp\<close> appended, and \<^verbatim>\<open>Rename\<close> of that temporary file to the final
  path. The two paths name entries of one directory, \<^verbatim>\<open>name.json\<close> and
  \<^verbatim>\<open>name.json.tmp\<close>, where \<^verbatim>\<open>name\<close> is the last element of the resource name. In
  the file system \<^verbatim>\<open>t3\<close> from which the rename runs, the temporary file holds
  those bytes and the node at the final path is still the one from before the
  \<^verbatim>\<open>Write\<close>; afterwards the final path holds the bytes and the temporary file is gone.
\<close>

theorem Write_temp_then_rename:
  assumes "Write cdc collection resource v d w = (None, d', w')"
  shows "\<exists>b fnl t3 base.
    fnl = filepath_Join [filepath_Join [driver.dir d, collection], resource @ ''.json''] \<and>
    marshal cdc v = Some b \<and>
    syslog w' = syslog w @
      [SysMkdirAll (filepath_Join [driver.dir d, collection]),
       SysWriteFile (fnl @ ''.tmp'') (b @ [newline]),
       SysRename (fnl @ ''.tmp'') fnl] \<and>
    resolve w fnl = base @ [last (split_sep resource) @ ''.json''] \<and>
    resolve w (fnl @ ''.tmp'') = base @ [last (split_sep resource) @ ''.json.tmp''] \<and>
    k_rename (w\<lparr>tree := t3\<rparr>) (fnl @ ''.tmp'') fnl = Inr (tree w') \<and>
    k_readfile (w\<lparr>tree := t3\<rparr>) (fnl @ ''.tmp'') = Inr (b @ [newline]) \<and>
    node_at (w\<lparr>tree := t3\<rparr>) (resolve w fnl) = node_at w (resolve w fnl) \<and>
    k_readfile w' fnl = Inr (b @ [newline]) \<and>
    k_stat w' (fnl @ ''.tmp'') = Inl NotExist"
proof -
  have "collection \<noteq> []"
    using assms by (auto simp: Write_def split: if_splits)
  then have "filepath_Join [driver.dir d, collection] \<noteq> []"
    by (rule filepath_Join_not_Nil)
  from final_path_shape [OF this, of w resource] Write_effect [OF assms]
  show ?thesis by auto
qed

theorem Write_temp_then_rename_witness:
  "Write bool_codec ''c'' ''x'' True d_db w_db = (None, d_x, w_x) \<and>
   (\<exists>t3 base.
     resolve w_db ''db/c/x.json'' = base @ [''x.json''] \<and>
     resolve w_db ''db/c/x.json.tmp'' = base @ [''x.json.tmp''] \<and>
     syslog w_x = syslog w_db @
       [SysMkdirAll ''db/c'',
        SysWriteFile ''db/c/x.json.tmp'' (''true'' @ [newline]),
        SysRename ''db/c/x.json.tmp'' ''db/c/x.json''] \<and>
     k_rename (w_db\<lparr>tree := t3\<rparr>) ''db/c/x.json.tmp'' ''db/c/x.json'' = Inr (tree w_x) \<and>
     k_readfile (w_db\<lparr>tree := t3\<rparr>) ''db/c/x.json.tmp'' = Inr (''true'' @ [newline]) \<and>
     node_at (w_db\<lparr>tree := t3\<rparr>) (resolve w_db ''db/c/x.json'') =
       node_at w_db (resolve w_db ''db/c/x.json'') \<and>
     k_readfile w_x ''db/c/x.json'' = Inr (''true'' @ [newline]) \<and>
     k_stat w_x ''db/c/x.json.tmp'' = Inl NotExist)"
proof -
  have "fst (Write bool_codec ''c'' ''x'' True d_db w_db) = None" by code_simp
  then have 1: "Write bool_codec ''c'' ''x'' True d_db w_db = (None, d_x, w_x)"
    using prod3_eq [of "Write bool_codec ''c'' ''x'' True d_db w_db"]
    by (simp add: d_x_def w_x_def)
  have 2: "filepath_Join [driver.dir d_db, ''c''] = ''db/c''"
    by code_simp
  have 3: "filepath_Join [''db/c'', ''x.json''] = ''db/c/x.json''"
    by code_simp
  have 4: "marshal bool_codec True = Some ''true''" by (simp add: bool_codec_def)
  have 5: "last (split_sep ''x'') = ''x''" by simp
  from Write_temp_then_rename [OF 1] show ?thesis
    using 1 4 by (auto simp: 2 3 5)
qed

text \<open>
  C4, as the program has it. For non-empty names, and when the environment makes no
  reading call fail, the outcome of \<^verbatim>\<open>Read\<close> is that of
  reading the file \<^verbatim>\<open>root/collection/resource.json\<close>: the error of that read when it
  fails, \<^verbatim>\<open>DecodeError\<close> when the contents do not deserialize into the target, the
  target's new value otherwise. So \<^verbatim>\<open>Read\<close> fails with the not-exist error exactly when
  the path with \<^verbatim>\<open>.json\<close> does not exist, whether or not the bare path does.
\<close>

theorem Read_reads_json_file:
  assumes "collection \<noteq> []" "resource \<noteq> []" "faults w = []"
  shows "fst (Read cdc collection resource out d w) =
      (case k_readfile w (filepath_Join [driver.dir d, collection, resource] @ ''.json'') of
         Inl e \<Rightarrow> Inl e
       | Inr b \<Rightarrow> (case unmarshal cdc b out of None \<Rightarrow> Inl DecodeError | Some v \<Rightarrow> Inr v)) \<and>
    (fst (Read cdc collection resource out d w) = Inl NotExist \<longleftrightarrow>
      k_stat w (filepath_Join [driver.dir d, collection, resource] @ ''.json'') = Inl NotExist)"
proof -
  note R = Read_result [OF assms, of cdc out d]
  have "fst (Read cdc collection resource out d w) = Inl NotExist \<longleftrightarrow>
    k_readfile w (filepath_Join [driver.dir d, collection, resource] @ ''.json'') = Inl NotExist"
    unfolding R by (auto split: sum.splits option.splits)
  then show ?thesis
    using R by (simp add: k_readfile_NotExist_iff)
qed

theorem Read_reads_json_file_witness:
  "''c'' \<noteq> [] \<and> ''x'' \<noteq> [] \<and> faults w_x = [] \<and>
   k_readfile w_x (filepath_Join [driver.dir d_x, ''c'', ''x''] @ ''.json'') = Inr (''true'' @ [newline]) \<and>
   fst (Read bool_codec ''c'' ''x'' False d_x w_x) = Inr True \<and>
   k_stat w_x (filepath_Join [driver.dir d_x, ''c'', ''x''] @ ''.json'') \<noteq> Inl NotExist"
proof -
  have 1: "''c'' \<noteq> []" and 2: "''x'' \<noteq> []" by simp_all
  have 3: "k_readfile w_x (filepath_Join [driver.dir d_x, ''c'', ''x''] @ ''.json'') =
    Inr (''true'' @ [newline])"
    by code_simp
  have 4: "unmarshal bool_codec (''true'' @ [newline]) False = Some True"
    by (simp add: bool_codec_def json_trim_def json_space_def newline_def)
  have 5: "faults w_x = []" by code_simp
  from Read_reads_json_file [OF 1 2 5, of bool_codec False d_x] 3 4 5 show ?thesis
    by auto
qed

text \<open>
  C4 as stated fails where only the bare path exists. After \<^verbatim>\<open>Write("c", "x", true)\<close>
  the file \<^verbatim>\<open>db/c/x.json\<close> exists; \<^verbatim>\<open>Read("c", "x.json", &out)\<close> resolves that
  bare path, then reads \<^verbatim>\<open>db/c/x.json.json\<close> and fails with the not-exist error,
  without reading the file it resolved.
\<close>

theorem Read_bare_path_only:
  "filepath_Join [driver.dir d_x, ''c'', ''x.json''] = ''db/c/x.json'' \<and>
   k_stat w_x ''db/c/x.json'' = Inr ModeRegular \<and>
   fst (Read bool_codec ''c'' ''x.json'' False d_x w_x) = Inl NotExist \<and>
   syslog (snd (Read bool_codec ''c'' ''x.json'' False d_x w_x)) =
     syslog w_x @ [SysStat ''db/c/x.json'', SysReadFile ''db/c/x.json.json'']"
  by code_simp

text \<open>
  C5, as the program has it, when the environment makes no reading call fail.
  \<^verbatim>\<open>Delete\<close> takes the bare path
  \<^verbatim>\<open>root/collection/resource\<close> and lets \<^verbatim>\<open>stat\<close> look at it and, when it does not
  exist, at the path with \<^verbatim>\<open>.json\<close>. When neither exists it fails with its
  \<^verbatim>\<open>unable to find\<close> error and changes no file. When the bare path is a directory whose
  last element is a name, the directory and everything below it is removed. When the bare
  path does not exist and the path with \<^verbatim>\<open>.json\<close> is a regular file, that file is
  removed.
\<close>

theorem Delete_removes:
  assumes "dirp = filepath_Join [driver.dir d, filepath_Join [collection, resource]]"
    and "w' = snd (snd (Delete collection resource d w))"
    and "faults w = []"
  shows "(k_stat w dirp = Inl NotExist \<and> k_stat w (dirp @ ''.json'') = Inl NotExist \<longrightarrow>
      fst (Delete collection resource d w) =
        Some (ErrorString (''unable to find file or directory name '' @
          filepath_Join [collection, resource] @ [newline])) \<and>
      tree w' = tree w) \<and>
    (k_stat w dirp = Inr ModeDir \<and> names_entry dirp \<longrightarrow>
      fst (Delete collection resource d w) = None \<and>
      (\<forall>q. node_at w' q = (if beneath (resolve w dirp) q then None else node_at w q))) \<and>
    (k_stat w dirp = Inl NotExist \<and> k_stat w (dirp @ ''.json'') = Inr ModeRegular \<longrightarrow>
      fst (Delete collection resource d w) = None \<and>
      (\<forall>q. node_at w' q =
        (if beneath (resolve w (dirp @ ''.json'')) q then None else node_at w q)))"
proof (intro conjI impI)
  note D = Delete_result(1,2) [OF assms(3), of collection resource d, folded assms(1)]
  note fst_stat = fst_stat [OF assms(3)]
  {
    assume "k_stat w dirp = Inl NotExist \<and> k_stat w (dirp @ ''.json'') = Inl NotExist"
    then have s: "fst (stat dirp w) = Inl NotExist" by (simp add: fst_stat)
    show "fst (Delete collection resource d w) =
        Some (ErrorString (''unable to find file or directory name '' @
          filepath_Join [collection, resource] @ [newline]))"
      by (simp add: D s)
    show "tree w' = tree w" by (simp add: assms(2) D s)
  }
  {
    assume a: "k_stat w dirp = Inr ModeDir \<and> names_entry dirp"
    then have s: "fst (stat dirp w) = Inr ModeDir" by (simp add: fst_stat)
    from a have e: "names_entry dirp" and k: "k_stat w dirp = Inr ModeDir" by simp_all
    show "fst (Delete collection resource d w) = None"
      by (simp add: D s removeall_entry_effect(1) [OF e k])
    show "\<forall>q. node_at w' q = (if beneath (resolve w dirp) q then None else node_at w q)"
      by (simp add: assms(2) D s node_at_tree [of "snd (snd (Delete collection resource d w))"]
          removeall_entry_effect(2) [OF e k])
  }
  {
    assume a: "k_stat w dirp = Inl NotExist \<and> k_stat w (dirp @ ''.json'') = Inr ModeRegular"
    then have s: "fst (stat dirp w) = Inr ModeRegular" by (simp add: fst_stat)
    from a have k: "k_stat w (dirp @ ''.json'') = Inr ModeRegular" by simp
    note e = names_entry_json [of dirp]
    show "fst (Delete collection resource d w) = None"
      by (simp add: D s removeall_entry_effect(1) [OF e k])
    show "\<forall>q. node_at w' q =
        (if beneath (resolve w (dirp @ ''.json'')) q then None else node_at w q)"
      by (simp add: assms(2) D s node_at_tree [of "snd (snd (Delete collection resource d w))"]
          removeall_entry_effect(2) [OF e k])
  }
qed

theorem Delete_removes_witness:
  "faults w_x = [] \<and>
   (k_stat w_x ''db/c/z'' = Inl NotExist \<and> k_stat w_x (''db/c/z'' @ ''.json'') = Inl NotExist \<and>
    fst (Delete ''c'' ''z'' d_x w_x) =
      Some (ErrorString (''unable to find file or directory name '' @ ''c/z'' @ [newline])) \<and>
    tree (snd (snd (Delete ''c'' ''z'' d_x w_x))) = tree w_x) \<and>
   (k_stat w_x ''db/c'' = Inr ModeDir \<and> names_entry ''db/c'' \<and>
    fst (Delete ''c'' [] d_x w_x) = None \<and>
    node_at (snd (snd (Delete ''c'' [] d_x w_x))) [''home'', ''db'', ''c''] = None \<and>
    node_at (snd (snd (Delete ''c'' [] d_x w_x))) [''home'', ''db'', ''c'', ''x.json''] = None \<and>
    node_at (snd (snd (Delete ''c'' [] d_x w_x))) [''home'', ''db''] = Some Dir) \<and>
   (k_stat w_x ''db/c/x'' = Inl NotExist \<and> k_stat w_x (''db/c/x'' @ ''.json'') = Inr ModeRegular \<and>
    fst (Delete ''c'' ''x'' d_x w_x) = None \<and>
    node_at (snd (snd (Delete ''c'' ''x'' d_x w_x))) [''home'', ''db'', ''c'', ''x.json''] = None \<and>
    node_at (snd (snd (Delete ''c'' ''x'' d_x w_x))) [''home'', ''db'', ''c''] = Some Dir)"
proof -
  have p1: "''db/c/z'' = filepath_Join [driver.dir d_x, filepath_Join [''c'', ''z'']]"
    and p2: "''db/c'' = filepath_Join [driver.dir d_x, filepath_Join [''c'', []]]"
    and p3: "''db/c/x'' = filepath_Join [driver.dir d_x, filepath_Join [''c'', ''x'']]"
    and j1: "filepath_Join [''c'', ''z''] = ''c/z''"
    by code_simp+
  have h1: "k_stat w_x ''db/c/z'' = Inl NotExist \<and> k_stat w_x (''db/c/z'' @ ''.json'') = Inl NotExist"
    by code_simp
  have h2: "k_stat w_x ''db/c'' = Inr ModeDir \<and> names_entry ''db/c''"
    by code_simp
  have h3: "k_stat w_x ''db/c/x'' = Inl NotExist \<and> k_stat w_x (''db/c/x'' @ ''.json'') = Inr ModeRegular"
    by code_simp
  have r2: "resolve w_x ''db/c'' = [''home'', ''db'', ''c'']"
    and r3: "resolve w_x ''db/c/x.json'' = [''home'', ''db'', ''c'', ''x.json'']"
    and n: "node_at w_x [''home'', ''db''] = Some Dir" "node_at w_x [''home'', ''db'', ''c''] = Some Dir"
    by code_simp+
  have nf: "faults w_x = []" by code_simp
  from Delete_removes [OF p1 refl nf] h1 have c1:
    "fst (Delete ''c'' ''z'' d_x w_x) =
      Some (ErrorString (''unable to find file or directory name '' @ ''c/z'' @ [newline]))"
    "tree (snd (snd (Delete ''c'' ''z'' d_x w_x))) = tree w_x"
    by (simp_all add: j1)
  from Delete_removes [OF p2 refl nf] h2 have c2:
    "fst (Delete ''c'' [] d_x w_x) = None"
    "\<And>q. node_at (snd (snd (Delete ''c'' [] d_x w_x))) q =
      (if beneath [''home'', ''db'', ''c''] q then None else node_at w_x q)"
    by (simp_all add: r2)
  from Delete_removes [OF p3 refl nf] h3 have c3:
    "fst (Delete ''c'' ''x'' d_x w_x) = None"
    "\<And>q. node_at (snd (snd (Delete ''c'' ''x'' d_x w_x))) q =
      (if beneath [''home'', ''db'', ''c'', ''x.json''] q then None else node_at w_x q)"
    by (simp_all add: r3)
  show ?thesis
    using nf h1 h2 h3 c1 by (simp add: c2 c3 beneath_def n)
qed

text \<open>
  C5 as stated fails where the kind of the node and the form of the path disagree, and
  for a directory that \<^verbatim>\<open>os.RemoveAll\<close> refuses. In the store where \<^verbatim>\<open>db/c/x.json\<close>
  is a directory and \<^verbatim>\<open>db/c/x\<close> does not exist, \<^verbatim>\<open>Delete("c", "x")\<close> resolves
  that directory, removes the missing bare path and returns no error: the directory and
  the record in it stay. In the store with the file \<^verbatim>\<open>db/c/x.json\<close>,
  \<^verbatim>\<open>Delete("c", "x.json")\<close> resolves that regular file, removes
  \<^verbatim>\<open>db/c/x.json.json\<close> and returns no error: the file stays. In the store opened at
  \<^verbatim>\<open>./\<close>, \<^verbatim>\<open>Delete(".", "")\<close> resolves the directory \<^verbatim>\<open>.\<close>, which
  \<^verbatim>\<open>os.RemoveAll\<close> refuses to remove.
\<close>

theorem Delete_leaves_resolved_target:
  "k_stat w_y ''db/c/x'' = Inl NotExist \<and>
   k_stat w_y ''db/c/x.json'' = Inr ModeDir \<and>
   fst (Delete ''c'' ''x'' d_y w_y) = None \<and>
   k_stat (snd (snd (Delete ''c'' ''x'' d_y w_y))) ''db/c/x.json'' = Inr ModeDir \<and>
   k_readfile (snd (snd (Delete ''c'' ''x'' d_y w_y))) ''db/c/x.json/y.json'' =
     Inr (''true'' @ [newline]) \<and>
   k_stat w_x ''db/c/x.json'' = Inr ModeRegular \<and>
   fst (Delete ''c'' ''x.json'' d_x w_x) = None \<and>
   k_readfile (snd (snd (Delete ''c'' ''x.json'' d_x w_x))) ''db/c/x.json'' =
     Inr (''true'' @ [newline]) \<and>
   k_stat w_cwd ''.'' = Inr ModeDir \<and>
   fst (Delete ''.'' [] d_cwd w_cwd) = Some IOError \<and>
   tree (snd (snd (Delete ''.'' [] d_cwd w_cwd))) = tree w_cwd"
  by code_simp

text \<open>
  C9, as the program has it. \<^verbatim>\<open>Delete\<close> checks no name. With both names empty the
  path it stats and removes is the root of the store itself. When that root is a
  directory, no reading call is made to fail, and the root's path ends in a name (it is not \<^verbatim>\<open>.\<close>, not \<^verbatim>\<open>/\<close> and does not
  end in \<^verbatim>\<open>..\<close>), \<^verbatim>\<open>Delete("", "")\<close> returns no error and the root directory and
  everything below it is gone.
\<close>

theorem Delete_empty_names_removes_store:
  assumes "filepath_Clean (driver.dir d) = driver.dir d"
    and "names_entry (driver.dir d)"
    and "k_stat w (driver.dir d) = Inr ModeDir"
    and "faults w = []"
  shows "filepath_Join [driver.dir d, filepath_Join [[], []]] = driver.dir d \<and>
    fst (Delete [] [] d w) = None \<and>
    (\<forall>q. node_at (snd (snd (Delete [] [] d w))) q =
      (if beneath (resolve w (driver.dir d)) q then None else node_at w q))"
proof -
  have p: "filepath_Join [driver.dir d, filepath_Join [[], []]] = driver.dir d"
    using assms(1) by (simp add: Join_empty)
  note D = Delete_result(1,2) [OF assms(4), of "[]" "[]" d, unfolded p]
  have s: "fst (stat (driver.dir d) w) = Inr ModeDir"
    using assms(3) by (simp add: fst_stat [OF assms(4)])
  show ?thesis
    using p
    by (simp add: D s node_at_tree [of "snd (snd (Delete [] [] d w))"]
        removeall_entry_effect [OF assms(2,3)])
qed

theorem Delete_empty_names_removes_store_witness:
  "filepath_Clean (driver.dir d_x) = driver.dir d_x \<and>
   names_entry (driver.dir d_x) \<and>
   k_stat w_x (driver.dir d_x) = Inr ModeDir \<and>
   faults w_x = [] \<and>
   driver.dir d_x = ''db'' \<and>
   fst (Delete [] [] d_x w_x) = None \<and>
   node_at (snd (snd (Delete [] [] d_x w_x))) [''home'', ''db''] = None \<and>
   node_at (snd (snd (Delete [] [] d_x w_x))) [''home'', ''db'', ''c''] = None \<and>
   node_at (snd (snd (Delete [] [] d_x w_x))) [''home'', ''db'', ''c'', ''x.json''] = None \<and>
   node_at (snd (snd (Delete [] [] d_x w_x))) [''home''] = Some Dir"
proof -
  have 1: "filepath_Clean (driver.dir d_x) = driver.dir d_x"
    and 2: "names_entry (driver.dir d_x)"
    and 3: "k_stat w_x (driver.dir d_x) = Inr ModeDir"
    and 4: "driver.dir d_x = ''db''"
    and 5: "faults w_x = []"
    and r: "resolve w_x (driver.dir d_x) = [''home'', ''db'']"
    and n: "node_at w_x [''home''] = Some Dir"
    by code_simp+
  from Delete_empty_names_removes_store [OF 1 2 3 5] have
    "fst (Delete [] [] d_x w_x) = None"
    "\<And>q. node_at (snd (snd (Delete [] [] d_x w_x))) q =
      (if beneath [''home'', ''db''] q then None else node_at w_x q)"
    by (simp_all add: r)
  then show ?thesis
    using 1 2 3 4 5 n by (simp add: beneath_def)
qed

text \<open>
  C9 as stated fails for the store that \<^verbatim>\<open>main\<close> opens, whose root is \<^verbatim>\<open>.\<close>:
  \<^verbatim>\<open>Delete("", "")\<close> calls \<^verbatim>\<open>os.RemoveAll(".")\<close>, which refuses the path; the
  error is returned and nothing is removed.
\<close>

theorem Delete_empty_names_dot_root:
  "driver.dir d_cwd = ''.'' \<and>
   k_stat w_cwd ''.'' = Inr ModeDir \<and>
   fst (Delete [] [] d_cwd w_cwd) = Some IOError \<and>
   syslog (snd (snd (Delete [] [] d_cwd w_cwd))) = syslog w_cwd @ [SysStat ''.'', SysRemoveAll ''.''] \<and>
   tree (snd (snd (Delete [] [] d_cwd w_cwd))) = tree w_cwd \<and>
   k_readfile (snd (snd (Delete [] [] d_cwd w_cwd))) ''c/x.json'' = Inr (''true'' @ [newline])"
  by code_simp

text \<open>
  C10. When the collection directory exists and the environment makes no reading call
  fail, \<^verbatim>\<open>ReadAll\<close> reads every entry of it,
  in the order of the names and whatever the names are. When all entries are regular
  files it returns the contents of every one of them, so a file left behind as
  \<^verbatim>\<open>name.json.tmp\<close> is returned like a record; when an entry is a directory the read
  of it fails and \<^verbatim>\<open>ReadAll\<close> returns that error. (The file system is taken to hold
  only names of directory entries.)
\<close>

theorem ReadAll_returns_every_file:
  assumes "collection \<noteq> []"
    and "l = resolve w (filepath_Join [driver.dir d, collection])"
    and "k_stat w (filepath_Join [driver.dir d, collection]) = Inr ModeDir"
    and "wf_names w"
    and "faults w = []"
  shows "fst (ReadAll collection d w) =
      (if list_all (\<lambda>n. is_file w (l @ [n])) (entries (tree w) l)
       then Inr (map (\<lambda>n. file_bytes w (l @ [n])) (entries (tree w) l))
       else Inl IOError) \<and>
    (\<forall>n. node_at w (l @ [n]) \<noteq> None \<longleftrightarrow> n \<in> set (entries (tree w) l)) \<and>
    (\<forall>records n b. fst (ReadAll collection d w) = Inr records \<and>
        node_at w (l @ [n @ ''.json.tmp'']) = Some (File b) \<longrightarrow> b \<in> set records)"
proof -
  have R: "fst (ReadAll collection d w) =
      (if list_all (\<lambda>n. is_file w (l @ [n])) (entries (tree w) l)
       then Inr (map (\<lambda>n. file_bytes w (l @ [n])) (entries (tree w) l))
       else Inl IOError)"
    using ReadAll_result [OF assms(1,3,4,5)] unfolding assms(2) by simp
  have E: "node_at w (l @ [n]) \<noteq> None \<longleftrightarrow> n \<in> set (entries (tree w) l)" for n
    by (simp add: entries_set node_at_def)
  have "b \<in> set records"
    if "fst (ReadAll collection d w) = Inr records"
      and "node_at w (l @ [n]) = Some (File b)" for records n b
  proof -
    from that(1) R have "records = map (\<lambda>n. file_bytes w (l @ [n])) (entries (tree w) l)"
      by (auto split: if_splits)
    moreover from that(2) have "n \<in> set (entries (tree w) l)"
      using E [of n] by simp
    moreover have "file_bytes w (l @ [n]) = b" using that(2) by (simp add: file_bytes_def)
    ultimately show ?thesis by force
  qed
  with R E show ?thesis by blast
qed

theorem ReadAll_returns_every_file_witness:
  "''c'' \<noteq> [] \<and>
   [''home'', ''db'', ''c''] = resolve w_stale (filepath_Join [driver.dir d_x, ''c'']) \<and>
   k_stat w_stale (filepath_Join [driver.dir d_x, ''c'']) = Inr ModeDir \<and>
   wf_names w_stale \<and>
   faults w_stale = [] \<and>
   entries (tree w_stale) [''home'', ''db'', ''c''] = [''x.json'', ''y.json.tmp''] \<and>
   node_at w_stale [''home'', ''db'', ''c'', ''y.json.tmp''] = Some (File (''false'' @ [newline])) \<and>
   fst (ReadAll ''c'' d_x w_stale) = Inr [''true'' @ [newline], ''false'' @ [newline]]"
proof -
  have 1: "''c'' \<noteq> []" by simp
  have 2: "[''home'', ''db'', ''c''] = resolve w_stale (filepath_Join [driver.dir d_x, ''c''])"
    and 3: "k_stat w_stale (filepath_Join [driver.dir d_x, ''c'']) = Inr ModeDir"
    and 4: "wf_names w_stale"
    and 5: "faults w_stale = []"
    and e: "entries (tree w_stale) [''home'', ''db'', ''c''] = [''x.json'', ''y.json.tmp'']"
    and x: "node_at w_stale [''home'', ''db'', ''c'', ''x.json''] = Some (File (''true'' @ [newline]))"
    and y: "node_at w_stale [''home'', ''db'', ''c'', ''y.json.tmp''] = Some (File (''false'' @ [newline]))"
    by code_simp+
  from ReadAll_returns_every_file [OF 1 2 3 4 5] have
    "fst (ReadAll ''c'' d_x w_stale) =
      (if list_all (\<lambda>n. is_file w_stale ([''home'', ''db'', ''c''] @ [n]))
          (entries (tree w_stale) [''home'', ''db'', ''c''])
       then Inr (map (\<lambda>n. file_bytes w_stale ([''home'', ''db'', ''c''] @ [n]))
          (entries (tree w_stale) [''home'', ''db'', ''c'']))
       else Inl IOError)"
    by blast
  then have "fst (ReadAll ''c'' d_x w_stale) = Inr [''true'' @ [newline], ''false'' @ [newline]]"
    using x y by (simp add: e file_bytes_def is_file_def)
  then show ?thesis
    using 3 4 5 e y by (simp add: 2 [symmetric])
qed

end
